theory Spec2Isabelle
  imports Complex_Main
begin


text \<open>
  Palette Cut samples 240 frames of a video, reduces each to its average colour, and
  summarises the colours. This theory embeds the video processing module
  (\<open>utils/videoProcessor.js\<close>, in its version with the FFmpeg fallback): the colour
  clusterer \<open>analyzeColors\<close>, which is the same in the version without fallback, and
  the sampling pipeline \<open>processVideo\<close> with its native and its fallback path.
\<close>

section \<open>Double-precision arithmetic\<close>

text \<open>
  A JavaScript number is an IEEE 754 double. A finite double is modelled as the real number
  it denotes, and an arithmetic operation as the exact operation followed by \<open>fl\<close>, the
  rounding to the nearest double with a tie going to the even significand. A double has 53
  significant bits: in the binade \<open>[2^e, 2^(e+1))\<close> the doubles are the multiples of
  \<open>2^(e-52)\<close>, and below \<open>2^-1022\<close> (the subnormal range) they are the multiples of
  \<open>2^-1074\<close>. \<open>NaN\<close>, the infinities and overflow are not represented: the numbers of
  this program are colour channels, counts and percentages.
\<close>

definition round_even :: "real \<Rightarrow> int" where
  "round_even y =
     (let f = \<lfloor>y\<rfloor>; d = y - real_of_int f
      in if d < 1 / 2 then f else if 1 / 2 < d then f + 1 else if even f then f else f + 1)"

definition binade :: "real \<Rightarrow> int" where
  "binade x = max \<lfloor>log 2 \<bar>x\<bar>\<rfloor> (- 1022)"

definition ulp :: "real \<Rightarrow> real" where
  "ulp x = 2 powr real_of_int (binade x - 52)"

definition fl :: "real \<Rightarrow> real" where
  "fl x = (if x = 0 then 0 else ulp x * real_of_int (round_even (x / ulp x)))"

text \<open>
  The operations of the program on doubles. \<open>Math.sqrt\<close> is correctly rounded;
  \<open>Math.pow(x, 2)\<close> is taken to be the correctly rounded square, which it is in
  particular whenever the square is itself a double (as for a difference of integers).
\<close>

definition fadd :: "real \<Rightarrow> real \<Rightarrow> real" where
  "fadd x y = fl (x + y)"

definition fsub :: "real \<Rightarrow> real \<Rightarrow> real" where
  "fsub x y = fl (x - y)"

definition fmul :: "real \<Rightarrow> real \<Rightarrow> real" where
  "fmul x y = fl (x * y)"

definition fdiv :: "real \<Rightarrow> real \<Rightarrow> real" where
  "fdiv x y = fl (x / y)"

definition fsqrt :: "real \<Rightarrow> real" where
  "fsqrt x = fl (sqrt x)"

definition fpow2 :: "real \<Rightarrow> real" where
  "fpow2 x = fl (x\<^sup>2)"

section \<open>Colours and the colour clusterer (analyzeColors)\<close>

text \<open>
  A colour object \<open>{r, g, b}\<close> is a record of three numbers. The distance test and the
  update of a cluster centre are computed in doubles, operation by operation as the source
  writes them. A count is a natural number (the program's counter is exact below
  \<open>2^53\<close>). The three totals of the average are sums of the channels; for channels that
  are integers they are exact in doubles too, and they are kept exact here.
\<close>

record color =
  r :: real
  g :: real
  b :: real

record cluster =
  center :: color
  count :: nat

record analysis =
  average :: color
  dominant :: color
  least :: color

definition FRAME_COUNT :: nat where
  "FRAME_COUNT = 240"

definition THRESHOLD :: real where
  "THRESHOLD = 30"

text \<open>\<open>Math.round\<close>: the nearest integer, a tie going towards plus infinity.\<close>

definition js_round :: "real \<Rightarrow> int" where
  "js_round x = \<lfloor>x + 1 / 2\<rfloor>"

definition colorDistance :: "color \<Rightarrow> color \<Rightarrow> real" where
  "colorDistance c1 c2 =
     fsqrt (fadd (fadd (fpow2 (fsub (r c1) (r c2))) (fpow2 (fsub (g c1) (g c2))))
                 (fpow2 (fsub (b c1) (b c2))))"

text \<open>
  The body of the \<open>if\<close> inside the scan: \<open>cluster.count++\<close>, then each channel of the
  centre becomes \<open>(old * (count - 1) + channel) / count\<close> with the count already
  incremented: a subtraction, a multiplication, an addition and a division of doubles.
\<close>

definition movingAverage :: "real \<Rightarrow> nat \<Rightarrow> real \<Rightarrow> real" where
  "movingAverage channel n x = fdiv (fadd (fmul channel (fsub (real n) 1)) x) (real n)"

definition absorb :: "cluster \<Rightarrow> color \<Rightarrow> cluster" where
  "absorb cl c =
     (let n = count cl + 1 in
      \<lparr>center =
         \<lparr>r = movingAverage (r (center cl)) n (r c),
          g = movingAverage (g (center cl)) n (g c),
          b = movingAverage (b (center cl)) n (b c)\<rparr>,
       count = n\<rparr>)"

text \<open>
  The inner \<open>for (let cluster of clusters)\<close> loop with its \<open>break\<close>: the result is the
  cluster list after the scan and the flag \<open>found\<close>.
\<close>

fun scanClusters :: "color \<Rightarrow> cluster list \<Rightarrow> cluster list \<times> bool" where
  "scanClusters c [] = ([], False)"
| "scanClusters c (cl # rest) =
     (if colorDistance c (center cl) < THRESHOLD then (absorb cl c # rest, True)
      else (case scanClusters c rest of (rest', found) \<Rightarrow> (cl # rest', found)))"

text \<open>One iteration of the outer \<open>colors.forEach\<close>: scan, then push a new cluster if none was found.\<close>

definition addColor :: "cluster list \<Rightarrow> color \<Rightarrow> cluster list" where
  "addColor clusters c =
     (case scanClusters c clusters of
        (clusters', found) \<Rightarrow>
          if found then clusters' else clusters' @ [\<lparr>center = c, count = 1\<rparr>])"

definition clusterColors :: "color list \<Rightarrow> cluster list" where
  "clusterColors colors = foldl addColor [] colors"

text \<open>The three running totals of the first \<open>forEach\<close>.\<close>

definition addTotals :: "real \<times> real \<times> real \<Rightarrow> color \<Rightarrow> real \<times> real \<times> real" where
  "addTotals t c = (case t of (totalR, totalG, totalB) \<Rightarrow> (totalR + r c, totalG + g c, totalB + b c))"

definition totals :: "color list \<Rightarrow> real \<times> real \<times> real" where
  "totals colors = foldl addTotals (0, 0, 0) colors"

definition roundColor :: "color \<Rightarrow> color" where
  "roundColor c =
     \<lparr>r = real_of_int (js_round (r c)), g = real_of_int (js_round (g c)),
      b = real_of_int (js_round (b c))\<rparr>"

text \<open>
  \<open>clusters.sort((a, b) => b.count - a.count)\<close>: a stable sort by descending count
  (\<open>Array.prototype.sort\<close> is stable), which is \<open>sort_key\<close> on the negated count.
\<close>

definition sortClusters :: "cluster list \<Rightarrow> cluster list" where
  "sortClusters clusters = sort_key (\<lambda>cl. - int (count cl)) clusters"

text \<open>
  \<open>analyzeColors\<close> returns \<open>null\<close> (here \<open>None\<close>) on an empty array. On a non-empty array
  there is at least one cluster (lemma \<open>clusterColors_not_Nil\<close> below), so \<open>clusters[0]\<close>
  and \<open>clusters[clusters.length - 1]\<close> are defined.
\<close>

definition analyzeColors :: "color list \<Rightarrow> analysis option" where
  "analyzeColors colors =
     (if colors = [] then None
      else
        (case totals colors of
           (totalR, totalG, totalB) \<Rightarrow>
             let n = real (length colors);
                 avg = \<lparr>r = real_of_int (js_round (totalR / n)),
                        g = real_of_int (js_round (totalG / n)),
                        b = real_of_int (js_round (totalB / n))\<rparr>;
                 clusters = sortClusters (clusterColors colors)
             in Some \<lparr>average = avg,
                      dominant = roundColor (center (hd clusters)),
                      least = roundColor (center (last clusters))\<rparr>))"


section \<open>analyzeColors over an explicit store\<close>

text \<open>
  The same function with its objects made explicit, for the question of which objects it
  writes to. A colour object lives at a reference into the store; the input array is a list
  of references (the same object may occur twice). A cluster object is local to the call and
  never shared, so it is kept by value: its \<open>center\<close> field is a reference to a colour
  object, its count a number. \<open>{ ...color }\<close> allocates a new colour object with the three
  fields copied; the three assignments to \<open>cluster.center.r\<close>, \<open>.g\<close>, \<open>.b\<close> are three
  writes to the object the cluster's \<open>center\<close> refers to.
\<close>

type_synonym ref = nat
type_synonym heap = "color list"

record hcluster =
  center_ref :: ref
  hcount :: nat

definition alloc :: "heap \<Rightarrow> color \<Rightarrow> heap \<times> ref" where
  "alloc h v = (h @ [v], length h)"

definition h_absorb :: "heap \<Rightarrow> hcluster \<Rightarrow> ref \<Rightarrow> hcluster \<times> heap" where
  "h_absorb h cl color =
     (let n = hcount cl + 1;
          ctr = center_ref cl;
          h1 = h[ctr := (h ! ctr)\<lparr>r := movingAverage (r (h ! ctr)) n (r (h ! color))\<rparr>];
          h2 = h1[ctr := (h1 ! ctr)\<lparr>g := movingAverage (g (h1 ! ctr)) n (g (h1 ! color))\<rparr>];
          h3 = h2[ctr := (h2 ! ctr)\<lparr>b := movingAverage (b (h2 ! ctr)) n (b (h2 ! color))\<rparr>]
      in (cl\<lparr>hcount := n\<rparr>, h3))"

fun h_scanClusters :: "heap \<Rightarrow> ref \<Rightarrow> hcluster list \<Rightarrow> hcluster list \<times> bool \<times> heap" where
  "h_scanClusters h color [] = ([], False, h)"
| "h_scanClusters h color (cl # rest) =
     (if colorDistance (h ! color) (h ! center_ref cl) < THRESHOLD
      then (case h_absorb h cl color of (cl', h') \<Rightarrow> (cl' # rest, True, h'))
      else (case h_scanClusters h color rest of (rest', found, h') \<Rightarrow> (cl # rest', found, h')))"

definition h_addColor :: "hcluster list \<times> heap \<Rightarrow> ref \<Rightarrow> hcluster list \<times> heap" where
  "h_addColor st color =
     (case st of (clusters, h) \<Rightarrow>
        (case h_scanClusters h color clusters of
           (clusters', found, h') \<Rightarrow>
             if found then (clusters', h')
             else (case alloc h' (h' ! color) of
                     (h'', copy) \<Rightarrow> (clusters' @ [\<lparr>center_ref = copy, hcount = 1\<rparr>], h''))))"

definition h_clusterColors :: "heap \<Rightarrow> ref list \<Rightarrow> hcluster list \<times> heap" where
  "h_clusterColors h colors = foldl h_addColor ([], h) colors"

definition h_sortClusters :: "hcluster list \<Rightarrow> hcluster list" where
  "h_sortClusters clusters = sort_key (\<lambda>cl. - int (hcount cl)) clusters"

definition h_analyzeColors :: "heap \<Rightarrow> ref list \<Rightarrow> analysis option \<times> heap" where
  "h_analyzeColors h colors =
     (if colors = [] then (None, h)
      else
        (case totals (map (\<lambda>a. h ! a) colors) of
           (totalR, totalG, totalB) \<Rightarrow>
             let n = real (length colors);
                 avg = \<lparr>r = real_of_int (js_round (totalR / n)),
                        g = real_of_int (js_round (totalG / n)),
                        b = real_of_int (js_round (totalB / n))\<rparr>
             in (case h_clusterColors h colors of
                   (clusters, h') \<Rightarrow>
                     let sorted_cls = h_sortClusters clusters
                     in (Some \<lparr>average = avg,
                               dominant = roundColor (h' ! center_ref (hd sorted_cls)),
                               least = roundColor (h' ! center_ref (last sorted_cls))\<rparr>, h'))))"

text \<open>The clusters of the store model read back as values.\<close>

definition abs_clusters :: "heap \<Rightarrow> hcluster list \<Rightarrow> cluster list" where
  "abs_clusters h cls = map (\<lambda>cl. \<lparr>center = h ! center_ref cl, count = hcount cl\<rparr>) cls"

text \<open>Every cluster centre is an object allocated after the first \<open>n0\<close> ones.\<close>

definition fresh_centers :: "nat \<Rightarrow> heap \<Rightarrow> hcluster list \<Rightarrow> bool" where
  "fresh_centers n0 h cls \<longleftrightarrow> (\<forall>cl\<in>set cls. n0 \<le> center_ref cl \<and> center_ref cl < length h)"

definition same_below :: "nat \<Rightarrow> heap \<Rightarrow> heap \<Rightarrow> bool" where
  "same_below n0 h h' \<longleftrightarrow> length h \<le> length h' \<and> (\<forall>a<n0. h' ! a = h ! a)"

section \<open>The clusterer as the specification words it\<close>


text \<open>
  The Euclidean distance in RGB space as a real number, the colours of the data model
  (each channel an integer in \<open>[0, 255]\<close>), the component-wise arithmetic mean of a colour
  sequence, and the length of a channel triple.
\<close>

definition euclidean :: "color \<Rightarrow> color \<Rightarrow> real" where
  "euclidean c1 c2 = sqrt ((r c1 - r c2)\<^sup>2 + (g c1 - g c2)\<^sup>2 + (b c1 - b c2)\<^sup>2)"

definition channel8 :: "real \<Rightarrow> bool" where
  "channel8 x \<longleftrightarrow> x \<in> \<int> \<and> 0 \<le> x \<and> x \<le> 255"

definition color8 :: "color \<Rightarrow> bool" where
  "color8 c \<longleftrightarrow> channel8 (r c) \<and> channel8 (g c) \<and> channel8 (b c)"


definition channelsWithin :: "real \<Rightarrow> color \<Rightarrow> color \<Rightarrow> bool" where
  "channelsWithin e c1 c2 \<longleftrightarrow>
     \<bar>r c1 - r c2\<bar> \<le> e \<and> \<bar>g c1 - g c2\<bar> \<le> e \<and> \<bar>b c1 - b c2\<bar> \<le> e"

definition meanColor :: "color list \<Rightarrow> color" where
  "meanColor cs =
     \<lparr>r = sum_list (map r cs) / real (length cs),
      g = sum_list (map g cs) / real (length cs),
      b = sum_list (map b cs) / real (length cs)\<rparr>"

definition norm3 :: "real \<Rightarrow> real \<Rightarrow> real \<Rightarrow> real" where
  "norm3 x y z = sqrt (x\<^sup>2 + y\<^sup>2 + z\<^sup>2)"

text \<open>
  \<open>Math.round\<close> has its ties at the numbers \<open>k + 1/2\<close>: a number is near a tie when its
  fractional part is within \<open>e\<close> of one half.
\<close>

definition nearTie :: "real \<Rightarrow> real \<Rightarrow> bool" where
  "nearTie e x \<longleftrightarrow> \<bar>frac x - 1 / 2\<bar> \<le> e"


section \<open>The sampling pipeline (processVideo)\<close>

text \<open>
  The browser and the decode engine are the environment. Each call the code makes to them
  is answered by a value of the environment record; what the code does to them, and every
  call of the progress callback, is appended to a trace. The state a promise ends in is an
  \<open>outcome\<close>: resolved with a value, rejected with the message of the \<open>Error\<close>, or
  \<open>Pending\<close> for a promise that nothing will ever settle. The progress values are computed
  in doubles. A seek time and the frame rate of the extraction are recorded in the trace as
  the exact quotients; the program passes on the doubles nearest to them.
\<close>

datatype 'a outcome = Resolved 'a | Rejected string | Pending

datatype effect =
    Progress int \<comment> \<open>\<open>onProgress(p)\<close>\<close>
  | SeekTo real \<comment> \<open>\<open>video.currentTime = seekTime\<close>\<close>
  | RevokeURL \<comment> \<open>\<open>cleanup()\<close>\<close>
  | Load \<comment> \<open>\<open>ffmpeg.load()\<close>\<close>
  | Confirm \<comment> \<open>\<open>confirm(...)\<close>\<close>
  | WriteFile string \<comment> \<open>\<open>ffmpeg.writeFile(inputName, ...)\<close>\<close>
  | ExecProbe string \<comment> \<open>\<open>ffmpeg.exec(['-i', inputName])\<close>\<close>
  | ExecExtract string real \<comment> \<open>the extraction \<open>exec\<close>: input name and the \<open>fps\<close> of the filter\<close>
  | ReadFile string \<comment> \<open>\<open>ffmpeg.readFile(fileName)\<close>\<close>
  | DeleteFile string \<comment> \<open>\<open>ffmpeg.deleteFile(name)\<close>\<close>

definition progressValues :: "effect list \<Rightarrow> int list" where
  "progressValues tr = concat (map (\<lambda>e. case e of Progress p \<Rightarrow> [p] | _ \<Rightarrow> []) tr)"

definition seekTimes :: "effect list \<Rightarrow> real list" where
  "seekTimes tr = concat (map (\<lambda>e. case e of SeekTo t \<Rightarrow> [t] | _ \<Rightarrow> []) tr)"

subsection \<open>Native path\<close>

text \<open>
  \<open>video.duration\<close> is a number that may be \<open>NaN\<close> or \<open>Infinity\<close>. The test
  \<open>!duration || duration === Infinity\<close> holds for \<open>NaN\<close>, \<open>0\<close> and \<open>Infinity\<close>.
\<close>

datatype js_duration = DurationNaN | DurationInfinity | DurationFinite real

fun durationUnknown :: "js_duration \<Rightarrow> bool" where
  "durationUnknown DurationNaN = True"
| "durationUnknown DurationInfinity = True"
| "durationUnknown (DurationFinite d) = (d = 0)"

text \<open>The number itself, read only where the test above has failed, that is for a finite duration.\<close>

fun finiteDuration :: "js_duration \<Rightarrow> real" where
  "finiteDuration (DurationFinite d) = d"
| "finiteDuration _ = 0"

text \<open>
  The video element answers the assignment of \<open>src\<close> with \<open>loadedmetadata\<close> or \<open>error\<close>,
  and the seek for frame \<open>i\<close> with \<open>seeked\<close> or \<open>error\<close> (the \<open>onerror\<close> handler stays
  installed for the whole run). At \<open>seeked\<close> the handler first calls \<open>drawImage\<close>, outside
  its \<open>try\<close>. \<open>Seeked capture\<close> is a \<open>seeked\<close> event at which \<open>drawImage\<close> returns; the
  handler then reads the canvas: \<open>Some c\<close> when \<open>getImageData\<close> returns and
  \<open>getAverageColor\<close> gives \<open>c\<close>, \<open>None\<close> when \<open>getImageData\<close> throws.
  \<open>SeekedDrawThrows\<close> is a \<open>seeked\<close> event at which \<open>drawImage\<close> throws: the exception
  leaves the handler, so nothing is pushed, the counter is not advanced, the progress
  callback is not called and no further seek is requested; the promise is never settled.
  An element that never answers a request is not represented.
\<close>

datatype load_event = LoadedMetadata js_duration | LoadError

datatype seek_event = Seeked "color option" | SeekedDrawThrows | SeekError

record native_env =
  load :: load_event
  seek :: "nat \<Rightarrow> seek_event"

text \<open>
  The state of a native run: the array \<open>colors\<close> and the counter \<open>currentFrame\<close> of the
  closure, and the trace of what has been done so far.
\<close>

record job =
  colors :: "color list"
  currentFrame :: nat
  trace :: "effect list"

definition black :: color where
  "black = \<lparr>r = 0, g = 0, b = 0\<rparr>"

text \<open>
  \<open>Math.min(interval * currentFrame, duration - 0.1)\<close> with
  \<open>interval = duration / FRAME_COUNT\<close>.
\<close>

definition seekTime :: "real \<Rightarrow> nat \<Rightarrow> real" where
  "seekTime duration n =
     (let interval = duration / real FRAME_COUNT
      in min (interval * real n) (duration - 1 / 10))"

text \<open>\<open>Math.round((currentFrame / FRAME_COUNT) * 100)\<close>: a division and a multiplication of doubles.\<close>

definition nativeProgress :: "nat \<Rightarrow> int" where
  "nativeProgress n = js_round (fmul (fdiv (real n) (real FRAME_COUNT)) 100)"

text \<open>
  \<open>processFrame\<close> together with the \<open>onseeked\<close> handler that calls it again through
  \<open>setTimeout\<close>: one round per frame.
\<close>

function processFrame :: "native_env \<Rightarrow> real \<Rightarrow> job \<Rightarrow> color list outcome \<times> effect list" where
  "processFrame env duration j =
     (if currentFrame j \<ge> FRAME_COUNT then (Resolved (colors j), trace j @ [RevokeURL])
      else
        let tr = trace j @ [SeekTo (seekTime duration (currentFrame j))]
        in (case seek env (currentFrame j) of
              SeekError \<Rightarrow> (Rejected ''Format not supported'', tr @ [RevokeURL])
            | SeekedDrawThrows \<Rightarrow> (Pending, tr)
            | Seeked capture \<Rightarrow>
                let cs = colors j @ [case capture of Some c \<Rightarrow> c | None \<Rightarrow> black];
                    n = currentFrame j + 1
                in processFrame env duration
                     \<lparr>colors = cs, currentFrame = n, trace = tr @ [Progress (nativeProgress n)]\<rparr>))"
  by pat_completeness auto
termination
  by (relation "measure (\<lambda>(env, duration, j). FRAME_COUNT - currentFrame j)") auto

text \<open>The entry that frame \<open>i\<close> contributes, and what one round adds to the trace.\<close>

definition frameColor :: "native_env \<Rightarrow> nat \<Rightarrow> color" where
  "frameColor env i = (case seek env i of Seeked (Some c) \<Rightarrow> c | _ \<Rightarrow> black)"

definition roundEffects :: "real \<Rightarrow> nat \<Rightarrow> effect list" where
  "roundEffects duration i = [SeekTo (seekTime duration i), Progress (nativeProgress (i + 1))]"

definition processVideoNative :: "native_env \<Rightarrow> color list outcome \<times> effect list" where
  "processVideoNative env =
     (case load env of
        LoadError \<Rightarrow> (Rejected ''Format not supported'', [RevokeURL])
      | LoadedMetadata d \<Rightarrow>
          if durationUnknown d
          then (Rejected ''Could not determine video duration'', [RevokeURL])
          else processFrame env (finiteDuration d) \<lparr>colors = [], currentFrame = 0, trace = []\<rparr>)"

subsection \<open>Software fallback path\<close>

text \<open>
  Strings: \<open>includes\<close> (here \<open>js_includes\<close>), \<open>toString\<close> of a non-negative integer,
  \<open>padStart\<close> with a one-character pad.
\<close>

fun js_includes :: "string \<Rightarrow> string \<Rightarrow> bool" where
  "js_includes [] sub = (sub = [])"
| "js_includes (x # xs) sub = (take (length sub) (x # xs) = sub \<or> js_includes xs sub)"

definition digitChar :: "nat \<Rightarrow> char" where
  "digitChar d = ''0123456789'' ! d"

function toString :: "nat \<Rightarrow> string" where
  "toString n = (if n < 10 then [digitChar n] else toString (n div 10) @ [digitChar (n mod 10)])"
  by pat_completeness auto
termination
  by (relation "measure (\<lambda>n. n)") auto

definition padStart :: "nat \<Rightarrow> char \<Rightarrow> string \<Rightarrow> string" where
  "padStart n pad s = replicate (n - length s) pad @ s"

definition frameFileName :: "nat \<Rightarrow> string" where
  "frameFileName i = ''out'' @ padStart 3 (CHR ''0'') (toString i) @ ''.png''"

text \<open>\<open>'input.' + (videoFile.name.split('.').pop() || 'mkv')\<close>\<close>

definition inputName :: "string \<Rightarrow> string" where
  "inputName name =
     (let ext = rev (takeWhile (\<lambda>ch. ch \<noteq> CHR ''.'') (rev name))
      in ''input.'' @ (if ext = [] then ''mkv'' else ext))"

text \<open>
  The log handler's pattern \<open>/Duration: (\d{2}):(\d{2}):(\d{2}\.\d{2})/\<close>: the leftmost
  place of the message where it matches, and the three numbers \<open>parseFloat\<close> reads there.
\<close>

definition digitVal :: "char \<Rightarrow> nat option" where
  "digitVal ch =
     (let code = (of_char ch :: nat)
      in if 48 \<le> code \<and> code \<le> 57 then Some (code - 48) else None)"

definition twoDigits :: "char \<Rightarrow> char \<Rightarrow> nat option" where
  "twoDigits x y =
     (case (digitVal x, digitVal y) of
        (Some m, Some n) \<Rightarrow> Some (10 * m + n)
      | _ \<Rightarrow> None)"

fun matchHMS :: "string \<Rightarrow> (real \<times> real \<times> real) option" where
  "matchHMS (h1 # h2 # c1 # m1 # m2 # c2 # s1 # s2 # dot # f1 # f2 # rest) =
     (if c1 = CHR '':'' \<and> c2 = CHR '':'' \<and> dot = CHR ''.''
      then (case (twoDigits h1 h2, twoDigits m1 m2, twoDigits s1 s2, twoDigits f1 f2) of
              (Some hours, Some minutes, Some secs, Some hundredths) \<Rightarrow>
                Some (real hours, real minutes, real secs + real hundredths / 100)
            | _ \<Rightarrow> None)
      else None)"
| "matchHMS _ = None"

definition matchDurationAt :: "string \<Rightarrow> (real \<times> real \<times> real) option" where
  "matchDurationAt s = (if take 10 s = ''Duration: '' then matchHMS (drop 10 s) else None)"

fun matchDuration :: "string \<Rightarrow> (real \<times> real \<times> real) option" where
  "matchDuration [] = None"
| "matchDuration (x # xs) =
     (case matchDurationAt (x # xs) of Some m \<Rightarrow> Some m | None \<Rightarrow> matchDuration xs)"

text \<open>The log handler: a message that matches overwrites the variable \<open>duration\<close>.\<close>

definition logHandler :: "real \<Rightarrow> string \<Rightarrow> real" where
  "logHandler duration message =
     (case matchDuration message of
        Some (hours, minutes, seconds) \<Rightarrow> hours * 3600 + minutes * 60 + seconds
      | None \<Rightarrow> duration)"

definition probeDuration :: "string list \<Rightarrow> real" where
  "probeDuration messages = foldl logHandler 0 messages"

text \<open>
  What reading frame file \<open>fileName\<close> does inside the \<open>try\<close> of the read loop:
  \<open>readFile\<close> throws (no such file), \<open>createImageBitmap\<close> throws, \<open>getImageData\<close> throws,
  or the colour is pushed; then \<open>deleteFile\<close> returns (\<open>True\<close>) or throws (\<open>False\<close>).
\<close>

datatype frame_read = ReadFails | BitmapFails | CaptureFails | Captured color bool

text \<open>
  The engine: \<open>None\<close> for a call that returns, \<open>Some m\<close> for one that throws an error with
  message \<open>m\<close>. \<open>ffmpeg_loaded\<close> is \<open>ffmpeg.loaded\<close> on entry, \<open>probe_log\<close> the log messages
  of the probe.
\<close>

record ffmpeg_env =
  ffmpeg_loaded :: bool
  load_result :: "string option"
  confirm_answer :: bool
  write_result :: "string option"
  probe_log :: "string list"
  probe_result :: "string option"
  extract_result :: "string option"
  read_frame :: "string \<Rightarrow> frame_read"
  delete_input_result :: "string option"

record video_file =
  file_name :: string
  file_size :: nat

text \<open>\<open>Math.round(10 + (i / FRAME_COUNT) * 80)\<close>: a division, a multiplication and an addition of doubles.\<close>

definition fallbackProgress :: "nat \<Rightarrow> int" where
  "fallbackProgress i = js_round (fadd 10 (fmul (fdiv (real i) (real FRAME_COUNT)) 80))"

text \<open>The read loop \<open>for (let i = 1; i <= FRAME_COUNT + 10; i++)\<close>; every \<open>catch\<close> is a \<open>break\<close>.\<close>

function readFrames :: "ffmpeg_env \<Rightarrow> color list \<Rightarrow> effect list \<Rightarrow> nat \<Rightarrow> color list \<times> effect list" where
  "readFrames env cs tr i =
     (if i \<le> FRAME_COUNT + 10 then
        let fileName = frameFileName i in
        (case read_frame env fileName of
           ReadFails \<Rightarrow> (cs, tr @ [ReadFile fileName])
         | BitmapFails \<Rightarrow> (cs, tr @ [ReadFile fileName])
         | CaptureFails \<Rightarrow> (cs, tr @ [ReadFile fileName])
         | Captured c deleted \<Rightarrow>
             if deleted
             then readFrames env (cs @ [c])
                    (tr @ [ReadFile fileName, DeleteFile fileName, Progress (fallbackProgress i)])
                    (i + 1)
             else (cs @ [c], tr @ [ReadFile fileName, DeleteFile fileName]))
      else (cs, tr))"
  by pat_completeness auto
termination
  by (relation "measure (\<lambda>(env, cs, tr, i). FRAME_COUNT + 11 - i)") auto

text \<open>The part of \<open>processVideoFFmpeg\<close> from the duration check on, after the probe has returned.\<close>

definition extractAndRead :: "ffmpeg_env \<Rightarrow> string \<Rightarrow> effect list \<Rightarrow> color list outcome \<times> effect list" where
  "extractAndRead env input tr =
     (let probed = probeDuration (probe_log env);
          duration = (if probed = 0 then 7200 else probed);
          fps = real FRAME_COUNT / duration;
          tr1 = tr @ [Progress 10, ExecExtract input fps]
      in (case extract_result env of
            Some m \<Rightarrow> (Rejected m, tr1)
          | None \<Rightarrow>
              (case readFrames env [] tr1 1 of
                 (cs, tr2) \<Rightarrow>
                   (case delete_input_result env of
                      Some m \<Rightarrow> (Rejected m, tr2 @ [DeleteFile input])
                    | None \<Rightarrow> (Resolved cs, tr2 @ [DeleteFile input, Progress 100])))))"

definition processVideoFFmpeg :: "ffmpeg_env \<Rightarrow> video_file \<Rightarrow> color list outcome \<times> effect list" where
  "processVideoFFmpeg env videoFile =
     (let tr0 = [Progress 1];
          tr1 = (if ffmpeg_loaded env then tr0 else tr0 @ [Load])
      in (case (if ffmpeg_loaded env then None else load_result env) of
            Some m \<Rightarrow> (Rejected m, tr1)
          | None \<Rightarrow>
              let large = file_size videoFile > 1024 * 1024 * 1024;
                  tr2 = (if large then tr1 @ [Confirm] else tr1)
              in if large \<and> \<not> confirm_answer env
                 then (Rejected ''Processing cancelled by user due to file size.'', tr2)
                 else
                   let input = inputName (file_name videoFile);
                       tr3 = tr2 @ [WriteFile input]
                   in (case write_result env of
                         Some m \<Rightarrow> (Rejected m, tr3)
                       | None \<Rightarrow>
                           (case probe_result env of
                              Some m \<Rightarrow> (Rejected m, tr3 @ [ExecProbe input])
                            | None \<Rightarrow> extractAndRead env input (tr3 @ [ExecProbe input])))))"

text \<open>
  The calls before the duration check all return: \<open>load\<close> (when it is called), the
  confirmation (when it is asked), \<open>writeFile\<close> and the probe \<open>exec\<close>.
\<close>

definition probeReturns :: "ffmpeg_env \<Rightarrow> video_file \<Rightarrow> bool" where
  "probeReturns env videoFile \<longleftrightarrow>
     (ffmpeg_loaded env \<or> load_result env = None) \<and>
     (file_size videoFile \<le> 1024 * 1024 * 1024 \<or> confirm_answer env) \<and>
     write_result env = None \<and> probe_result env = None"

text \<open>What \<open>processVideoFFmpeg\<close> has done when the probe returns.\<close>

definition probeTrace :: "ffmpeg_env \<Rightarrow> video_file \<Rightarrow> effect list" where
  "probeTrace env videoFile =
     [Progress 1] @ (if ffmpeg_loaded env then [] else [Load]) @
     (if file_size videoFile > 1024 * 1024 * 1024 then [Confirm] else []) @
     [WriteFile (inputName (file_name videoFile)), ExecProbe (inputName (file_name videoFile))]"

subsection \<open>The entry point\<close>

definition fallbackOn :: "string \<Rightarrow> bool" where
  "fallbackOn message \<longleftrightarrow>
     message \<noteq> [] \<and>
     (js_includes message ''supported'' \<or> js_includes message ''video duration'' \<or>
      js_includes message ''format'')"

definition processVideo :: "native_env \<Rightarrow> ffmpeg_env \<Rightarrow> video_file \<Rightarrow> color list outcome \<times> effect list" where
  "processVideo nenv fenv videoFile =
     (case processVideoNative nenv of
        (Resolved cs, tr) \<Rightarrow> (Resolved cs, tr)
      | (Rejected message, tr) \<Rightarrow>
          if fallbackOn message
          then (case processVideoFFmpeg fenv videoFile of (out, tr') \<Rightarrow> (out, tr @ tr'))
          else (Rejected message, tr)
      | (Pending, tr) \<Rightarrow> (Pending, tr))"

fun isResolved :: "'a outcome \<Rightarrow> bool" where
  "isResolved (Resolved x) = True"
| "isResolved (Rejected m) = False"
| "isResolved Pending = False"

subsection \<open>Example runs\<close>

text \<open>
  Environments for the concrete runs below: a video file, a video element that plays it,
  one whose frame 4 cannot be read from the canvas, one whose frame 4 cannot be drawn to
  the canvas, one that reports an infinite duration, one that cannot play the file, one that
  fires \<open>error\<close> at the seek for frame 4, one that fires it at the seek for the last frame,
  and engines that write few frame files.
\<close>

definition film :: video_file where
  "film = \<lparr>file_name = ''film.mkv'', file_size = 734003200\<rparr>"

definition teal :: color where
  "teal = \<lparr>r = 10, g = 120, b = 130\<rparr>"


definition tainted :: native_env where
  "tainted =
     \<lparr>load = LoadedMetadata (DurationFinite 120),
      seek = (\<lambda>i. if i = 4 then Seeked None else Seeked (Some teal))\<rparr>"

definition undrawable :: native_env where
  "undrawable =
     \<lparr>load = LoadedMetadata (DurationFinite 120),
      seek = (\<lambda>i. if i = 4 then SeekedDrawThrows else Seeked (Some teal))\<rparr>"

definition endless :: native_env where
  "endless = \<lparr>load = LoadedMetadata DurationInfinity, seek = (\<lambda>i. Seeked (Some teal))\<rparr>"

definition unsupported :: native_env where
  "unsupported = \<lparr>load = LoadError, seek = (\<lambda>i. SeekError)\<rparr>"



text \<open>
  An engine that found two frames in a file cut short after a minute: the header announces
  two hours, so a frame is taken every 30 seconds.
\<close>

definition two_frames :: ffmpeg_env where
  "two_frames =
     \<lparr>ffmpeg_loaded = False, load_result = None, confirm_answer = True, write_result = None,
      probe_log = [''Input #0, matroska,webm, from input.mkv:'',
                   ''  Duration: 02:00:00.00, start: 0.000000, bitrate: 1205 kb/s''],
      probe_result = None, extract_result = None,
      read_frame = (\<lambda>f. if f = ''out001.png'' \<or> f = ''out002.png'' then Captured teal True
                         else ReadFails),
      delete_input_result = None\<rparr>"

text \<open>An engine that wrote four frame files; the third one cannot be decoded.\<close>

definition third_unreadable :: ffmpeg_env where
  "third_unreadable =
     \<lparr>ffmpeg_loaded = True, load_result = None, confirm_answer = True, write_result = None,
      probe_log = [''  Duration: 02:00:00.00, start: 0.000000, bitrate: 1205 kb/s''],
      probe_result = None, extract_result = None,
      read_frame = (\<lambda>f. if f = ''out003.png'' then BitmapFails
                         else if f \<in> set [''out001.png'', ''out002.png'', ''out004.png'']
                         then Captured teal True else ReadFails),
      delete_input_result = None\<rparr>"

text \<open>An engine whose probe log carries no duration.\<close>

definition no_duration :: ffmpeg_env where
  "no_duration =
     \<lparr>ffmpeg_loaded = True, load_result = None, confirm_answer = True, write_result = None,
      probe_log = [''Input #0, matroska,webm, from input.mkv:'',
                   ''  Duration: N/A, start: 0.000000, bitrate: N/A''],
      probe_result = None, extract_result = None,
      read_frame = (\<lambda>f. if f = ''out001.png'' then Captured teal True else ReadFails),
      delete_input_result = None\<rparr>"

declare processFrame.simps [simp del]
declare readFrames.simps [simp del]
declare toString.simps [simp del]


section \<open>Double-precision arithmetic: lemmas\<close>

subsection \<open>Rounding to an integer, ties to even\<close>

lemma round_even_of_int [simp]: "round_even (real_of_int n) = n"
  by (simp add: round_even_def)

lemma round_even_ge_floor: "\<lfloor>y\<rfloor> \<le> round_even y"
  by (simp add: round_even_def Let_def)

lemma round_even_le_floor: "round_even y \<le> \<lfloor>y\<rfloor> + 1"
  by (simp add: round_even_def Let_def)

lemma round_even_mono:
  assumes "y \<le> z"
  shows "round_even y \<le> round_even z"
proof (cases "\<lfloor>y\<rfloor> = \<lfloor>z\<rfloor>")
  case True
  with assms show ?thesis
    by (auto simp: round_even_def Let_def)
next
  case False
  with assms have "\<lfloor>y\<rfloor> < \<lfloor>z\<rfloor>"
    using floor_mono [OF assms] by linarith
  then have "round_even y \<le> \<lfloor>z\<rfloor>"
    using round_even_le_floor [of y] by linarith
  then show ?thesis
    using round_even_ge_floor [of z] by linarith
qed

lemma round_even_error: "\<bar>real_of_int (round_even y) - y\<bar> \<le> 1 / 2"
proof -
  have "real_of_int \<lfloor>y\<rfloor> \<le> y" "y < real_of_int \<lfloor>y\<rfloor> + 1"
    by linarith+
  then show ?thesis
    by (auto simp: round_even_def Let_def abs_le_iff)
qed

lemma ulp_pos [simp]: "0 < ulp x"
  by (simp add: ulp_def)

lemma ulp_nonneg [simp]: "0 \<le> ulp x"
  by (simp add: ulp_def)

lemma ulp_nonzero [simp]: "ulp x \<noteq> 0"
  by (simp add: ulp_def)

lemma binade_upper:
  assumes "x \<noteq> 0"
  shows "\<bar>x\<bar> < 2 powr real_of_int (binade x + 1)"
proof -
  from assms have pos: "0 < \<bar>x\<bar>" by simp
  have "log 2 \<bar>x\<bar> < real_of_int (\<lfloor>log 2 \<bar>x\<bar>\<rfloor> + 1)"
    by linarith
  also have "\<dots> \<le> real_of_int (binade x + 1)"
    by (simp add: binade_def)
  finally have "log 2 \<bar>x\<bar> < real_of_int (binade x + 1)" .
  with pos show ?thesis
    by (simp add: log_less_iff)
qed

lemma binade_lower:
  assumes "2 powr (- 1022) \<le> \<bar>x\<bar>"
  shows "2 powr real_of_int (binade x) \<le> \<bar>x\<bar>"
proof -
  have "(0::real) < 2 powr (- 1022)" by simp
  with assms have pos: "0 < \<bar>x\<bar>" by linarith
  from assms pos have "- 1022 \<le> log 2 \<bar>x\<bar>"
    by (simp add: le_log_iff)
  then have "- 1022 \<le> \<lfloor>log 2 \<bar>x\<bar>\<rfloor>"
    by (simp add: le_floor_iff)
  then have "binade x = \<lfloor>log 2 \<bar>x\<bar>\<rfloor>"
    by (simp add: binade_def)
  then have "real_of_int (binade x) \<le> log 2 \<bar>x\<bar>"
    by simp
  with pos show ?thesis
    by (simp add: le_log_iff)
qed

lemma binade_mono:
  assumes "0 < x" and "x \<le> y"
  shows "binade x \<le> binade y"
proof -
  from assms have "log 2 \<bar>x\<bar> \<le> log 2 \<bar>y\<bar>" by simp
  then have "\<lfloor>log 2 \<bar>x\<bar>\<rfloor> \<le> \<lfloor>log 2 \<bar>y\<bar>\<rfloor>" by (rule floor_mono)
  then show ?thesis by (simp add: binade_def)
qed

lemma binade_ge: "- 1022 \<le> binade x"
  by (simp add: binade_def)

subsection \<open>Rounding to a double\<close>

lemma two_powr_53: "(2::real) powr 53 = 2 ^ 53" and two_powr_52: "(2::real) powr 52 = 2 ^ 52"
  by (simp_all add: powr_numeral del: power_numeral)

lemma ulp_times_53: "ulp x * 2 ^ 53 = 2 powr real_of_int (binade x + 1)"
proof -
  have "ulp x * 2 powr 53 = 2 powr (real_of_int (binade x - 52) + 53)"
    by (simp only: ulp_def powr_add)
  then show ?thesis
    by (simp add: two_powr_53 ac_simps del: power_numeral)
qed

lemma ulp_times_52: "ulp x * 2 ^ 52 = 2 powr real_of_int (binade x)"
proof -
  have "ulp x * 2 powr 52 = 2 powr (real_of_int (binade x - 52) + 52)"
    by (simp only: ulp_def powr_add)
  then show ?thesis
    by (simp add: two_powr_52 del: power_numeral)
qed

lemma fl_zero [simp]: "fl 0 = 0"
  by (simp add: fl_def)

lemma fl_nonneg:
  assumes "0 \<le> x"
  shows "0 \<le> fl x"
proof (cases "x = 0")
  case False
  from assms have "0 \<le> x / ulp x"
    by (intro divide_nonneg_pos ulp_pos)
  from round_even_mono [OF this] have "0 \<le> round_even (x / ulp x)"
    by (simp add: round_even_def)
  with False show ?thesis by (simp add: fl_def)
qed simp

lemma fl_upper:
  assumes "0 < x"
  shows "fl x \<le> 2 powr real_of_int (binade x + 1)"
proof -
  from assms binade_upper [of x] have "x < ulp x * 2 ^ 53"
    by (simp add: ulp_times_53 del: power_numeral)
  then have "x / ulp x \<le> real_of_int (2 ^ 53)"
    by (simp add: pos_divide_le_eq mult.commute del: power_numeral)
  from round_even_mono [OF this] have "round_even (x / ulp x) \<le> 2 ^ 53"
    by (simp only: round_even_of_int)
  then have "real_of_int (round_even (x / ulp x)) \<le> 2 ^ 53"
    by (metis of_int_le_iff of_int_numeral of_int_power)
  then have "ulp x * real_of_int (round_even (x / ulp x)) \<le> ulp x * 2 ^ 53"
    by (intro mult_left_mono) simp_all
  with assms show ?thesis
    by (simp add: fl_def ulp_times_53 del: power_numeral)
qed

lemma fl_lower:
  assumes "2 powr (- 1022) \<le> x"
  shows "2 powr real_of_int (binade x) \<le> fl x"
proof -
  have "(0::real) < 2 powr (- 1022)" by simp
  with assms have pos: "0 < x" by linarith
  from assms pos binade_lower [of x] have "ulp x * 2 ^ 52 \<le> x"
    by (simp add: ulp_times_52 del: power_numeral)
  then have "real_of_int (2 ^ 52) \<le> x / ulp x"
    by (simp add: pos_le_divide_eq mult.commute del: power_numeral)
  from round_even_mono [OF this] have "2 ^ 52 \<le> round_even (x / ulp x)"
    by (simp only: round_even_of_int)
  then have "2 ^ 52 \<le> real_of_int (round_even (x / ulp x))"
    by (metis of_int_le_iff of_int_numeral of_int_power)
  then have "ulp x * 2 ^ 52 \<le> ulp x * real_of_int (round_even (x / ulp x))"
    by (intro mult_left_mono) simp_all
  with pos show ?thesis
    by (simp add: fl_def ulp_times_52 del: power_numeral)
qed

lemma fl_mono:
  assumes "0 \<le> x" and "x \<le> y"
  shows "fl x \<le> fl y"
proof (cases "x = 0")
  case True
  with assms fl_nonneg [of y] show ?thesis by simp
next
  case False
  with assms have x: "0 < x" and y: "0 < y" by simp_all
  from binade_mono [OF x assms(2)] have le: "binade x \<le> binade y" .
  show ?thesis
  proof (cases "binade x = binade y")
    case True
    then have u: "ulp x = ulp y" by (simp add: ulp_def)
    from assms(2) have "x / ulp y \<le> y / ulp y"
      by (intro divide_right_mono less_imp_le [OF ulp_pos])
    from round_even_mono [OF this]
    have "real_of_int (round_even (x / ulp y)) \<le> real_of_int (round_even (y / ulp y))"
      by simp
    then have "ulp y * real_of_int (round_even (x / ulp y)) \<le> ulp y * real_of_int (round_even (y / ulp y))"
      by (intro mult_left_mono) simp_all
    with x y u show ?thesis by (simp add: fl_def)
  next
    case False
    with le have lt: "binade x + 1 \<le> binade y" by simp
    with binade_ge [of x] have "- 1022 < binade y" by linarith
    then have "binade y = \<lfloor>log 2 \<bar>y\<bar>\<rfloor>" "- 1022 \<le> \<lfloor>log 2 \<bar>y\<bar>\<rfloor>"
      by (simp_all add: binade_def max_def split: if_splits)
    then have "- 1022 \<le> log 2 \<bar>y\<bar>"
      by (simp add: le_floor_iff)
    with y have normal: "2 powr (- 1022) \<le> y"
      by (simp add: le_log_iff)
    have "fl x \<le> 2 powr real_of_int (binade x + 1)"
      using x by (rule fl_upper)
    also from lt have "\<dots> \<le> 2 powr real_of_int (binade y)"
      by (intro powr_mono) simp_all
    also have "\<dots> \<le> fl y"
      using normal by (rule fl_lower)
    finally show ?thesis .
  qed
qed

lemma fl_error: "\<bar>fl x - x\<bar> \<le> ulp x / 2"
proof (cases "x = 0")
  case False
  have "fl x - x = ulp x * (real_of_int (round_even (x / ulp x)) - x / ulp x)"
    using False by (simp add: fl_def right_diff_distrib)
  then have "\<bar>fl x - x\<bar> = ulp x * \<bar>real_of_int (round_even (x / ulp x)) - x / ulp x\<bar>"
    by (simp add: abs_mult)
  also have "\<dots> \<le> ulp x * (1 / 2)"
    by (intro mult_left_mono round_even_error) simp
  finally show ?thesis by simp
qed simp

lemma ulp_le:
  assumes "\<bar>x\<bar> \<le> M" and "2 powr (- 1022) \<le> M" and "x \<noteq> 0"
  shows "ulp x \<le> M / 2 ^ 52"
proof -
  have "2 powr real_of_int (binade x) \<le> M"
  proof (cases "2 powr (- 1022) \<le> \<bar>x\<bar>")
    case True
    from binade_lower [OF this] assms(1) show ?thesis by linarith
  next
    case False
    then have small: "\<bar>x\<bar> < 2 powr (- 1022)" by simp
    have "binade x = - 1022"
    proof -
      from assms(3) have "0 < \<bar>x\<bar>" by simp
      with small have "log 2 \<bar>x\<bar> < - 1022"
        by (simp add: log_less_iff)
      then have "\<lfloor>log 2 \<bar>x\<bar>\<rfloor> < - 1022"
        by (simp add: floor_less_iff)
      then show ?thesis by (simp add: binade_def)
    qed
    with assms(2) show ?thesis by simp
  qed
  then have "ulp x * 2 ^ 52 \<le> M"
    by (simp add: ulp_times_52 del: power_numeral)
  then show ?thesis
    by (simp add: pos_le_divide_eq del: power_numeral)
qed

lemma fl_error_bound:
  assumes "\<bar>x\<bar> \<le> M" and "2 powr (- 1022) \<le> M"
  shows "\<bar>fl x - x\<bar> \<le> M / 2 ^ 53"
proof (cases "x = 0")
  case True
  have "(0::real) < 2 powr (- 1022)" by simp
  with assms(2) have "0 \<le> M" by linarith
  then have "0 \<le> M / 2 ^ 53" by simp
  with True show ?thesis by simp
next
  case False
  from ulp_le [OF assms False] have "ulp x / 2 \<le> M / 2 ^ 52 / 2"
    by (simp add: divide_right_mono del: power_numeral)
  also have "\<dots> = M / 2 ^ 53" by simp
  finally show ?thesis using fl_error [of x] by linarith
qed

lemma binade_eq:
  assumes "2 powr real_of_int e \<le> \<bar>x\<bar>" and "\<bar>x\<bar> < 2 powr real_of_int (e + 1)" and "- 1022 \<le> e"
  shows "binade x = e"
proof -
  have "(0::real) < 2 powr real_of_int e" by simp
  with assms(1) have pos: "0 < \<bar>x\<bar>" by linarith
  with assms(1,2) have "\<lfloor>log 2 \<bar>x\<bar>\<rfloor> = e"
    by (subst floor_log_eq_powr_iff) simp_all
  with assms(3) show ?thesis by (simp add: binade_def)
qed

lemma two_powr_neg_nat: "(2::real) powr (- real n) = 1 / 2 ^ n"
  by (simp add: powr_minus powr_realpow inverse_eq_divide)

lemma two_powr_diff_nat: "(2::real) powr (real m - real n) = 2 ^ m / 2 ^ n"
  by (simp add: powr_diff powr_realpow)

lemma fl_eval:
  assumes "2 ^ 52 \<le> \<bar>x\<bar> * 2 ^ n" and "\<bar>x\<bar> * 2 ^ n < 2 ^ 53" and "n \<le> 1074"
  shows "fl x = real_of_int (round_even (x * 2 ^ n)) / 2 ^ n"
proof -
  let ?e = "52 - int n"
  have e: "real_of_int ?e = real 52 - real n" "real_of_int (?e + 1) = real 53 - real n"
    by simp_all
  from assms(1) have "2 powr real_of_int ?e \<le> \<bar>x\<bar>"
    unfolding e two_powr_diff_nat by (simp add: pos_divide_le_eq del: power_numeral)
  moreover from assms(2) have "\<bar>x\<bar> < 2 powr real_of_int (?e + 1)"
    unfolding e two_powr_diff_nat by (simp add: pos_less_divide_eq del: power_numeral)
  moreover from assms(3) have "- 1022 \<le> ?e" by simp
  ultimately have "binade x = ?e" by (rule binade_eq)
  then have "ulp x = 2 powr (- real n)"
    by (simp add: ulp_def)
  then have u: "ulp x = 1 / 2 ^ n"
    by (simp only: two_powr_neg_nat)
  from assms(1) have "x \<noteq> 0" by auto
  then show ?thesis
    by (simp add: fl_def u)
qed

lemma fl_dyadic:
  assumes "\<bar>m\<bar> < 2 ^ 53" and "n \<le> 1074"
  shows "fl (real_of_int m / 2 ^ n) = real_of_int m / 2 ^ n"
proof (cases "m = 0")
  case False
  let ?x = "real_of_int m / 2 ^ n"
  from False have nz: "?x \<noteq> 0" by simp
  from assms(1) have "real_of_int \<bar>m\<bar> < real_of_int (2 ^ 53)"
    by (simp only: of_int_less_iff)
  then have m53: "real_of_int \<bar>m\<bar> < 2 ^ 53"
    by simp
  have "\<bar>?x\<bar> = real_of_int \<bar>m\<bar> / 2 ^ n"
    by (simp add: abs_divide)
  also from m53 have "\<dots> < 2 ^ 53 / 2 ^ n"
    by (intro divide_strict_right_mono) simp_all
  also have "\<dots> = 2 powr (real 53 - real n)"
    by (simp only: two_powr_diff_nat)
  finally have "\<bar>?x\<bar> < 2 powr (real 53 - real n)" .
  with nz have "log 2 \<bar>?x\<bar> < real 53 - real n"
    by (simp add: log_less_iff)
  then have "\<lfloor>log 2 \<bar>?x\<bar>\<rfloor> \<le> 52 - int n"
    by (simp add: floor_le_iff)
  with assms(2) have "binade ?x \<le> 52 - int n"
    by (simp add: binade_def)
  define d where "d = nat (52 - int n - binade ?x)"
  with \<open>binade ?x \<le> 52 - int n\<close> have d: "binade ?x - 52 = - int n - int d"
    by simp
  then have "ulp ?x = 2 powr (- real (n + d))"
    by (simp add: ulp_def)
  then have u: "ulp ?x = 1 / 2 ^ (n + d)"
    by (simp only: two_powr_neg_nat)
  then have "?x / ulp ?x = real_of_int (m * 2 ^ d)"
    by (simp add: power_add)
  then have "round_even (?x / ulp ?x) = m * 2 ^ d"
    by (simp only: round_even_of_int)
  with nz show ?thesis
    by (simp add: fl_def u power_add)
qed simp

lemma fl_of_int: "\<bar>m\<bar> < 2 ^ 53 \<Longrightarrow> fl (real_of_int m) = real_of_int m"
  using fl_dyadic [of m 0] by simp

lemma fl_of_nat: "n < 2 ^ 53 \<Longrightarrow> fl (real n) = real n"
  using fl_of_int [of "int n"] by simp

lemma fl_numeral: "(numeral k :: int) < 2 ^ 53 \<Longrightarrow> fl (numeral k) = numeral k"
  using fl_of_int [of "numeral k"] by simp

lemma fl_one [simp]: "fl 1 = 1"
  using fl_of_int [of 1] by simp

subsection \<open>Symmetry and monotonicity\<close>

lemma round_even_minus: "round_even (- y) = - round_even y"
proof (cases "y \<in> \<int>")
  case True
  then obtain n where "y = real_of_int n"
    by (auto elim: Ints_cases)
  then have "- y = real_of_int (- n)"
    by simp
  then show ?thesis
    using \<open>y = real_of_int n\<close> by (simp only: round_even_of_int)
next
  case False
  have ne: "real_of_int \<lfloor>y\<rfloor> \<noteq> y"
  proof
    assume eq: "real_of_int \<lfloor>y\<rfloor> = y"
    have "y \<in> \<int>"
      by (subst eq [symmetric]) (rule Ints_of_int)
    then show False
      using False by simp
  qed
  then have f: "\<lfloor>- y\<rfloor> = - \<lfloor>y\<rfloor> - 1"
    by (simp add: floor_minus ceiling_altdef eq_commute)
  note ne
  then have lt: "real_of_int \<lfloor>y\<rfloor> < y"
    using of_int_floor_le [of y] by linarith
  show ?thesis
    unfolding round_even_def Let_def f using lt by auto
qed

lemma ulp_minus [simp]: "ulp (- x) = ulp x"
  by (simp add: ulp_def binade_def)

lemma fl_minus: "fl (- x) = - fl x"
  by (simp add: fl_def round_even_minus)

lemma fl_nonpos: "x \<le> 0 \<Longrightarrow> fl x \<le> 0"
  using fl_nonneg [of "- x"] by (simp add: fl_minus)

lemma fl_monotone: "x \<le> y \<Longrightarrow> fl x \<le> fl y"
proof -
  assume xy: "x \<le> y"
  consider "0 \<le> x" | "x < 0" "0 \<le> y" | "y < 0"
    by linarith
  then show ?thesis
  proof cases
    case 1
    then show ?thesis
      using xy by (rule fl_mono)
  next
    case 2
    then show ?thesis
      using fl_nonpos [of x] fl_nonneg [of y] by linarith
  next
    case 3
    then have "fl (- y) \<le> fl (- x)"
      using xy by (intro fl_mono) auto
    then show ?thesis
      by (simp add: fl_minus)
  qed
qed

lemma fl_abs: "fl \<bar>x\<bar> = \<bar>fl x\<bar>"
proof (cases "0 \<le> x")
  case True
  then show ?thesis
    using fl_nonneg [of x] by simp
next
  case False
  then show ?thesis
    using fl_nonpos [of x] by (simp add: fl_minus)
qed

subsection \<open>Doubles that are computed exactly\<close>

lemma fl_Ints: "x \<in> \<int> \<Longrightarrow> \<bar>x\<bar> < 2 ^ 53 \<Longrightarrow> fl x = x"
proof -
  assume "x \<in> \<int>" and b: "\<bar>x\<bar> < 2 ^ 53"
  then obtain m where x: "x = real_of_int m"
    by (auto elim: Ints_cases)
  have "real_of_int \<bar>m\<bar> < real_of_int (2 ^ 53)"
    using b x by simp
  then have "\<bar>m\<bar> < 2 ^ 53"
    by (simp only: of_int_less_iff)
  then show ?thesis
    using x by (simp add: fl_of_int)
qed

lemma fl_half_Ints: "x \<in> \<int> \<Longrightarrow> \<bar>x\<bar> < 2 ^ 53 \<Longrightarrow> fl (x / 2) = x / 2"
proof -
  assume "x \<in> \<int>" and b: "\<bar>x\<bar> < 2 ^ 53"
  then obtain m where x: "x = real_of_int m"
    by (auto elim: Ints_cases)
  have "real_of_int \<bar>m\<bar> < real_of_int (2 ^ 53)"
    using b x by simp
  then have "\<bar>m\<bar> < 2 ^ 53"
    by (simp only: of_int_less_iff)
  then show ?thesis
    using x fl_dyadic [of m 1] by simp
qed

lemma fl_le: "x \<le> d \<Longrightarrow> fl d = d \<Longrightarrow> fl x \<le> d"
  using fl_monotone [of x d] by simp

lemma fl_ge: "d \<le> x \<Longrightarrow> fl d = d \<Longrightarrow> d \<le> fl x"
  using fl_monotone [of d x] by simp

lemma fsub_real_1: "n < 2 ^ 53 \<Longrightarrow> fsub (real (n + 1)) 1 = real n"
  by (simp add: fsub_def fl_of_nat)
section \<open>The clusterer: lemmas and claims\<close>

subsection \<open>Evaluating the distance test\<close>

text \<open>
  On colours whose channels are integers in \<open>[0, 255]\<close> the differences, their squares and
  the sum of the squares are computed exactly; only the square root is rounded, and the
  rounded root is below 30 exactly when the sum of the squares is below 900.
\<close>

lemma sqrt_900: "sqrt 900 = 30"
  using real_sqrt_abs [of 30] by simp

lemma channel8_diff:
  assumes "channel8 x" and "channel8 y"
  shows "fsub x y = x - y" and "x - y \<in> \<int>" and "\<bar>x - y\<bar> \<le> 255"
proof -
  show i: "x - y \<in> \<int>"
    using assms by (simp add: channel8_def)
  show b: "\<bar>x - y\<bar> \<le> 255"
    using assms by (simp add: channel8_def abs_le_iff)
  show "fsub x y = x - y"
    unfolding fsub_def using i b by (intro fl_Ints) simp_all
qed

lemma fpow2_Ints:
  assumes "d \<in> \<int>" and "\<bar>d\<bar> \<le> 255"
  shows "fpow2 d = d\<^sup>2" and "d\<^sup>2 \<in> \<int>" and "0 \<le> d\<^sup>2" and "d\<^sup>2 \<le> 65025"
proof -
  show i: "d\<^sup>2 \<in> \<int>"
    using assms by simp
  show n: "0 \<le> d\<^sup>2"
    by simp
  have "\<bar>d\<bar>\<^sup>2 \<le> 255\<^sup>2"
    using assms by (intro power_mono) simp_all
  then show b: "d\<^sup>2 \<le> 65025"
    by simp
  show "fpow2 d = d\<^sup>2"
    unfolding fpow2_def using i n b by (intro fl_Ints) simp_all
qed

lemma colorDistance_color8:
  assumes "color8 c1" and "color8 c2"
  shows "colorDistance c1 c2 = fl (sqrt ((r c1 - r c2)\<^sup>2 + (g c1 - g c2)\<^sup>2 + (b c1 - b c2)\<^sup>2))"
proof -
  note dr = channel8_diff [of "r c1" "r c2"]
  note dg = channel8_diff [of "g c1" "g c2"]
  note db = channel8_diff [of "b c1" "b c2"]
  have c: "channel8 (r c1)" "channel8 (g c1)" "channel8 (b c1)"
    "channel8 (r c2)" "channel8 (g c2)" "channel8 (b c2)"
    using assms by (simp_all add: color8_def)
  note pr = fpow2_Ints [OF dr(2,3) [OF c(1) c(4)]]
  note pg = fpow2_Ints [OF dg(2,3) [OF c(2) c(5)]]
  note pb = fpow2_Ints [OF db(2,3) [OF c(3) c(6)]]
  have s1: "fadd ((r c1 - r c2)\<^sup>2) ((g c1 - g c2)\<^sup>2) = (r c1 - r c2)\<^sup>2 + (g c1 - g c2)\<^sup>2"
    unfolding fadd_def using pr(2,3,4) pg(2,3,4) by (intro fl_Ints) simp_all
  have s2: "fadd ((r c1 - r c2)\<^sup>2 + (g c1 - g c2)\<^sup>2) ((b c1 - b c2)\<^sup>2) =
      (r c1 - r c2)\<^sup>2 + (g c1 - g c2)\<^sup>2 + (b c1 - b c2)\<^sup>2"
    unfolding fadd_def using pr(2,3,4) pg(2,3,4) pb(2,3,4) by (intro fl_Ints) simp_all
  show ?thesis
    unfolding colorDistance_def
    by (simp only: dr(1) [OF c(1) c(4)] dg(1) [OF c(2) c(5)] db(1) [OF c(3) c(6)]
        pr(1) pg(1) pb(1) s1 s2 fsqrt_def)
qed

lemma fl_sqrt_less_30:
  assumes "s \<in> \<int>"
  shows "fl (sqrt s) < 30 \<longleftrightarrow> s < 900"
proof
  assume "fl (sqrt s) < 30"
  show "s < 900"
  proof (rule ccontr)
    assume "\<not> s < 900"
    then have "900 \<le> s"
      by simp
    then have "sqrt 900 \<le> sqrt s"
      by (simp only: real_sqrt_le_iff)
    then have "30 \<le> sqrt s"
      by (simp add: sqrt_900)
    moreover have "fl 30 = 30"
      by (rule fl_Ints) simp_all
    ultimately have "30 \<le> fl (sqrt s)"
      by (intro fl_ge)
    with \<open>fl (sqrt s) < 30\<close> show False
      by simp
  qed
next
  assume "s < 900"
  from assms obtain m where s: "s = real_of_int m"
    by (auto elim: Ints_cases)
  with \<open>s < 900\<close> have "m < 900"
    by simp
  then have "m \<le> 899"
    by simp
  then have "s \<le> 899"
    using s by simp
  also have "(899::real) \<le> (1919 / 64)\<^sup>2"
    by (simp add: power2_eq_square)
  finally have "sqrt s \<le> sqrt ((1919 / 64)\<^sup>2)"
    by (simp only: real_sqrt_le_iff)
  then have "sqrt s \<le> 1919 / 64"
    by simp
  moreover have "fl (1919 / 64) = 1919 / 64"
    using fl_dyadic [of 1919 6] by simp
  ultimately have "fl (sqrt s) \<le> 1919 / 64"
    by (intro fl_le)
  then show "fl (sqrt s) < 30"
    by simp
qed

lemma colorDistance_less_iff:
  assumes "color8 c1" and "color8 c2"
  shows "colorDistance c1 c2 < THRESHOLD \<longleftrightarrow>
     (r c1 - r c2)\<^sup>2 + (g c1 - g c2)\<^sup>2 + (b c1 - b c2)\<^sup>2 < 900"
proof -
  have "(r c1 - r c2)\<^sup>2 + (g c1 - g c2)\<^sup>2 + (b c1 - b c2)\<^sup>2 \<in> \<int>"
    using assms by (simp add: color8_def channel8_def)
  then show ?thesis
    by (simp add: colorDistance_color8 [OF assms] THRESHOLD_def fl_sqrt_less_30)
qed

text \<open>Two colours of which one channel differs by 31 or more fail the test, whatever their channels are.\<close>

lemma fpow2_far:
  assumes "31 \<le> \<bar>x - y\<bar>"
  shows "961 \<le> fpow2 (fsub x y)"
proof -
  have f31: "fl 31 = 31" and f961: "fl 961 = 961"
    by (rule fl_Ints; simp)+
  have "31 \<le> fl \<bar>x - y\<bar>"
    using assms f31 by (intro fl_ge)
  then have "31 \<le> \<bar>fsub x y\<bar>"
    by (simp add: fsub_def fl_abs)
  then have "31\<^sup>2 \<le> \<bar>fsub x y\<bar>\<^sup>2"
    by (intro power_mono) simp_all
  then have "961 \<le> (fsub x y)\<^sup>2"
    by simp
  then show ?thesis
    unfolding fpow2_def using f961 by (intro fl_ge)
qed

lemma fpow2_nonneg: "0 \<le> fpow2 x"
  unfolding fpow2_def by (rule fl_nonneg) simp

lemma fadd_far:
  assumes "961 \<le> x + y"
  shows "961 \<le> fadd x y"
proof -
  have "fl 961 = 961"
    by (rule fl_Ints) simp_all
  then show ?thesis
    unfolding fadd_def using assms by (intro fl_ge)
qed

lemma colorDistance_far:
  assumes "31 \<le> \<bar>r c1 - r c2\<bar> \<or> 31 \<le> \<bar>g c1 - g c2\<bar> \<or> 31 \<le> \<bar>b c1 - b c2\<bar>"
  shows "\<not> colorDistance c1 c2 < THRESHOLD"
proof -
  let ?pr = "fpow2 (fsub (r c1) (r c2))"
  let ?pg = "fpow2 (fsub (g c1) (g c2))"
  let ?pb = "fpow2 (fsub (b c1) (b c2))"
  have nn: "0 \<le> ?pr" "0 \<le> ?pg" "0 \<le> ?pb"
    by (rule fpow2_nonneg)+
  have nn2: "0 \<le> fadd ?pr ?pg"
    unfolding fadd_def using nn by (intro fl_nonneg) simp
  have "961 \<le> ?pr \<or> 961 \<le> ?pg \<or> 961 \<le> ?pb"
    using assms fpow2_far by blast
  then have "961 \<le> fadd ?pr ?pg \<or> 961 \<le> ?pb"
    using nn by (auto intro!: fadd_far)
  then have "961 \<le> fadd (fadd ?pr ?pg) ?pb"
    using nn nn2 by (auto intro!: fadd_far)
  then have "sqrt (31\<^sup>2) \<le> sqrt (fadd (fadd ?pr ?pg) ?pb)"
    by (simp only: real_sqrt_le_iff) simp
  then have "31 \<le> sqrt (fadd (fadd ?pr ?pg) ?pb)"
    by simp
  moreover have "fl 31 = 31"
    by (rule fl_Ints) simp_all
  ultimately have "31 \<le> colorDistance c1 c2"
    unfolding colorDistance_def fsqrt_def by (intro fl_ge)
  then show ?thesis
    by (simp add: THRESHOLD_def)
qed
subsection \<open>The average\<close>

lemma foldl_addTotals:
  "foldl addTotals (a, b', c) cols =
     (a + sum_list (map r cols), b' + sum_list (map g cols), c + sum_list (map b cols))"
  by (induction cols arbitrary: a b' c) (simp_all add: addTotals_def add.assoc)

lemma totals_sum_list:
  "totals cols = (sum_list (map r cols), sum_list (map g cols), sum_list (map b cols))"
  by (simp add: totals_def foldl_addTotals)

lemma addColor_not_Nil: "addColor cls c \<noteq> []"
  by (cases cls) (auto simp: addColor_def split: prod.splits if_splits)

lemma clusterColors_snoc: "clusterColors (cs @ [c]) = addColor (clusterColors cs) c"
  by (simp add: clusterColors_def)

lemma clusterColors_not_Nil: "cols \<noteq> [] \<Longrightarrow> clusterColors cols \<noteq> []"
  by (cases cols rule: rev_cases) (simp_all add: clusterColors_snoc addColor_not_Nil)

text \<open>
  Claim C7. For every non-empty colour sequence \<open>analyzeColors\<close> returns a result whose
  \<open>average\<close> is, channel by channel, the arithmetic mean of the entries rounded to the
  nearest integer (\<open>round\<close>, a tie going up, as \<open>Math.round\<close> does): an integer at
  most one half away from the mean.
\<close>

theorem analyzeColors_average:
  assumes "cols \<noteq> []"
  shows "\<exists>res. analyzeColors cols = Some res \<and>
     r (average res) = real_of_int (round (sum_list (map r cols) / real (length cols))) \<and>
     g (average res) = real_of_int (round (sum_list (map g cols) / real (length cols))) \<and>
     b (average res) = real_of_int (round (sum_list (map b cols) / real (length cols))) \<and>
     \<bar>r (average res) - sum_list (map r cols) / real (length cols)\<bar> \<le> 1 / 2 \<and>
     \<bar>g (average res) - sum_list (map g cols) / real (length cols)\<bar> \<le> 1 / 2 \<and>
     \<bar>b (average res) - sum_list (map b cols) / real (length cols)\<bar> \<le> 1 / 2"
proof -
  have js: "real_of_int (js_round x) = real_of_int (round x)" for x
    by (simp add: js_round_def round_def)
  have near: "\<bar>real_of_int (round x) - x\<bar> \<le> 1 / 2" for x :: real
    by (rule of_int_round_abs_le)
  from assms have "analyzeColors cols =
     Some \<lparr>average =
             \<lparr>r = real_of_int (round (sum_list (map r cols) / real (length cols))),
              g = real_of_int (round (sum_list (map g cols) / real (length cols))),
              b = real_of_int (round (sum_list (map b cols) / real (length cols)))\<rparr>,
           dominant = roundColor (center (hd (sortClusters (clusterColors cols)))),
           least = roundColor (center (last (sortClusters (clusterColors cols))))\<rparr>"
    by (simp add: analyzeColors_def totals_sum_list js Let_def)
  then show ?thesis
    using near [of "sum_list (map r cols) / real (length cols)"]
      near [of "sum_list (map g cols) / real (length cols)"]
      near [of "sum_list (map b cols) / real (length cols)"]
    by simp
qed

theorem analyzeColors_average_witness:
  "[\<lparr>r = 255, g = 0, b = 0\<rparr>, \<lparr>r = 0, g = 0, b = 255\<rparr>, \<lparr>r = 254, g = 1, b = 0\<rparr>] \<noteq> [] \<and>
   (\<exists>res. analyzeColors [\<lparr>r = 255, g = 0, b = 0\<rparr>, \<lparr>r = 0, g = 0, b = 255\<rparr>, \<lparr>r = 254, g = 1, b = 0\<rparr>] = Some res \<and>
      r (average res) = 170 \<and> g (average res) = 0 \<and> b (average res) = 85)"
  using analyzeColors_average [of "[\<lparr>r = 255, g = 0, b = 0\<rparr>, \<lparr>r = 0, g = 0, b = 255\<rparr>, \<lparr>r = 254, g = 1, b = 0\<rparr>]"]
  by (auto simp add: round_def)

lemma analyzeColors_Some:
  assumes "cols \<noteq> []"
  shows "analyzeColors cols =
     Some \<lparr>average =
             \<lparr>r = real_of_int (js_round (sum_list (map r cols) / real (length cols))),
              g = real_of_int (js_round (sum_list (map g cols) / real (length cols))),
              b = real_of_int (js_round (sum_list (map b cols) / real (length cols)))\<rparr>,
           dominant = roundColor (center (hd (sortClusters (clusterColors cols)))),
           least = roundColor (center (last (sortClusters (clusterColors cols))))\<rparr>"
  using assms by (simp add: analyzeColors_def totals_sum_list Let_def)

subsection \<open>The update of a centre and the incremental mean\<close>

text \<open>
  The update \<open>(center * (count - 1) + color) / count\<close> rounds three times. In the reals it
  is the incremental mean \<open>center + (color - center) / count\<close>; in doubles it is within
  \<open>2^-41\<close> of it when the centre and the colour have channels of magnitude at most 256.
\<close>

lemma tiny_le: "1 \<le> M \<Longrightarrow> 2 powr (- 1022) \<le> (M::real)"
proof -
  assume "1 \<le> M"
  have "(2::real) powr (- real 1022) = 1 / 2 ^ 1022"
    by (rule two_powr_neg_nat)
  also have "\<dots> \<le> 1"
    by simp
  finally show ?thesis
    using \<open>1 \<le> M\<close> by simp
qed

lemma movingAverage_near:
  assumes ch: "\<bar>channel\<bar> \<le> 256" and x: "\<bar>x\<bar> \<le> 256" and n: "n < 2 ^ 53"
  shows "\<bar>movingAverage channel (n + 1) x - (channel + (x - channel) / real (n + 1))\<bar> \<le> 1 / 2 ^ 41"
proof -
  define N where "N = real (n + 1)"
  define a where "a = channel * real n"
  define a' where "a' = fl a"
  define s where "s = a' + x"
  define s' where "s' = fl s"
  define t where "t = s' / N"
  have N: "1 \<le> N" and nN: "real n \<le> N"
    by (simp_all add: N_def)
  have ma: "movingAverage channel (n + 1) x = fl t"
    unfolding movingAverage_def fsub_real_1 [OF n] fmul_def fadd_def fdiv_def
    by (simp only: t_def s'_def s_def a'_def a_def N_def)
  have "\<bar>a\<bar> = \<bar>channel\<bar> * real n"
    by (simp add: a_def abs_mult)
  also have "\<dots> \<le> 256 * N"
    using ch nN by (intro mult_mono) simp_all
  finally have A: "\<bar>a\<bar> \<le> 256 * N" .
  have ea: "\<bar>a' - a\<bar> \<le> 256 * N / 2 ^ 53"
    unfolding a'_def using A N by (intro fl_error_bound tiny_le) simp_all
  have "256 * N / 2 ^ 53 \<le> 256 * N"
    using N by (simp add: field_simps)
  with ea A have A': "\<bar>a'\<bar> \<le> 512 * N"
    by linarith
  have S: "\<bar>s\<bar> \<le> 768 * N"
    unfolding s_def using A' x N by linarith
  have es: "\<bar>s' - s\<bar> \<le> 768 * N / 2 ^ 53"
    unfolding s'_def using S N by (intro fl_error_bound tiny_le) simp_all
  have "768 * N / 2 ^ 53 \<le> 768 * N"
    using N by (simp add: field_simps)
  with es S have S': "\<bar>s'\<bar> \<le> 1536 * N"
    by linarith
  have "\<bar>t\<bar> = \<bar>s'\<bar> / N"
    using N by (simp add: t_def)
  also have "\<dots> \<le> 1536 * N / N"
    using S' N by (intro divide_right_mono) simp_all
  finally have T: "\<bar>t\<bar> \<le> 1536"
    using N by simp
  have et: "\<bar>fl t - t\<bar> \<le> 1536 / 2 ^ 53"
    using T by (intro fl_error_bound tiny_le) simp_all
  have target: "channel + (x - channel) / real (n + 1) = (a + x) / N"
    using N by (simp add: a_def N_def field_simps)
  have "(s' - s) + (a' - a) = s' - (a + x)"
    by (simp add: s_def)
  then have "t - (a + x) / N = ((s' - s) + (a' - a)) / N"
    by (simp only: t_def diff_divide_distrib)
  then have "\<bar>t - (a + x) / N\<bar> = \<bar>(s' - s) + (a' - a)\<bar> / N"
    using N by simp
  also have "\<dots> \<le> (768 * N / 2 ^ 53 + 256 * N / 2 ^ 53) / N"
    using es ea N by (intro divide_right_mono) linarith+
  also have "\<dots> = 1024 / 2 ^ 53"
    using N by (simp add: field_simps)
  finally have "\<bar>t - (a + x) / N\<bar> \<le> 1024 / 2 ^ 53" .
  with et have "\<bar>fl t - (a + x) / N\<bar> \<le> 1536 / 2 ^ 53 + 1024 / 2 ^ 53"
    by linarith
  also have "\<dots> \<le> 1 / 2 ^ 41"
    by simp
  finally show ?thesis
    by (simp only: ma target)
qed
subsection \<open>First fit\<close>





lemma euclidean_less_iff:
  "euclidean c1 c2 < 30 \<longleftrightarrow> (r c1 - r c2)\<^sup>2 + (g c1 - g c2)\<^sup>2 + (b c1 - b c2)\<^sup>2 < 900"
proof -
  have "sqrt x < sqrt 900 \<longleftrightarrow> x < 900" for x :: real
    by (rule real_sqrt_less_iff)
  then show ?thesis
    by (simp add: euclidean_def sqrt_900)
qed




subsection \<open>Dominant and least\<close>

lemma sorted_map_hd_le:
  assumes "sorted (map f xs)" and "x \<in> set xs"
  shows "f (hd xs) \<le> f x"
  using assms by (cases xs) auto

lemma sorted_map_le_last:
  assumes "sorted (map f xs)" and "x \<in> set xs"
  shows "f x \<le> f (last xs)"
  using assms
  by (induction xs) (auto split: if_splits)

lemma sortClusters_set: "set (sortClusters cls) = set cls"
  by (simp add: sortClusters_def)

lemma sortClusters_sorted: "sorted (map (\<lambda>cl. - int (count cl)) (sortClusters cls))"
  by (simp add: sortClusters_def)

lemma sortClusters_hd_max:
  assumes "k \<in> set cls"
  shows "count k \<le> count (hd (sortClusters cls))"
proof -
  from assms have "k \<in> set (sortClusters cls)" by (simp add: sortClusters_set)
  from sorted_map_hd_le [OF sortClusters_sorted this] show ?thesis by simp
qed

lemma sortClusters_last_min:
  assumes "k \<in> set cls"
  shows "count (last (sortClusters cls)) \<le> count k"
proof -
  from assms have "k \<in> set (sortClusters cls)" by (simp add: sortClusters_set)
  from sorted_map_le_last [OF sortClusters_sorted this] show ?thesis by simp
qed

lemma sortClusters_not_Nil: "cls \<noteq> [] \<Longrightarrow> sortClusters cls \<noteq> []"
  using sortClusters_set [of cls] by (metis set_empty)

text \<open>
  Claim C6. For every non-empty colour sequence, \<open>dominant\<close> is the rounded centre of the
  first cluster after the sort and \<open>least\<close> the rounded centre of the last one; both are
  clusters that the clustering formed, the first has a count greater than or equal to the
  count of every cluster, the last a count less than or equal to the count of every cluster.
\<close>

theorem analyzeColors_dominant_least:
  assumes "cols \<noteq> []"
  shows "\<exists>res dom_cl least_cl.
     analyzeColors cols = Some res \<and>
     dom_cl = hd (sortClusters (clusterColors cols)) \<and>
     least_cl = last (sortClusters (clusterColors cols)) \<and>
     dom_cl \<in> set (clusterColors cols) \<and>
     least_cl \<in> set (clusterColors cols) \<and>
     (\<forall>k \<in> set (clusterColors cols). count k \<le> count dom_cl) \<and>
     (\<forall>k \<in> set (clusterColors cols). count least_cl \<le> count k) \<and>
     dominant res = roundColor (center dom_cl) \<and>
     least res = roundColor (center least_cl)"
proof -
  let ?cls = "clusterColors cols"
  from assms have ne: "sortClusters ?cls \<noteq> []"
    by (simp add: clusterColors_not_Nil sortClusters_not_Nil)
  then have "hd (sortClusters ?cls) \<in> set ?cls" "last (sortClusters ?cls) \<in> set ?cls"
    using sortClusters_set [of ?cls] hd_in_set last_in_set by blast+
  then show ?thesis
    using assms by (simp add: analyzeColors_Some sortClusters_hd_max sortClusters_last_min)
qed

theorem analyzeColors_dominant_least_witness:
  "[\<lparr>r = 255, g = 0, b = 0\<rparr>, \<lparr>r = 0, g = 0, b = 255\<rparr>, \<lparr>r = 254, g = 1, b = 0\<rparr>] \<noteq> [] \<and>
   (\<exists>res. analyzeColors [\<lparr>r = 255, g = 0, b = 0\<rparr>, \<lparr>r = 0, g = 0, b = 255\<rparr>, \<lparr>r = 254, g = 1, b = 0\<rparr>] = Some res \<and>
      count (hd (sortClusters (clusterColors [\<lparr>r = 255, g = 0, b = 0\<rparr>, \<lparr>r = 0, g = 0, b = 255\<rparr>, \<lparr>r = 254, g = 1, b = 0\<rparr>]))) = 2 \<and>
      count (last (sortClusters (clusterColors [\<lparr>r = 255, g = 0, b = 0\<rparr>, \<lparr>r = 0, g = 0, b = 255\<rparr>, \<lparr>r = 254, g = 1, b = 0\<rparr>]))) = 1 \<and>
      dominant res = \<lparr>r = 255, g = 1, b = 0\<rparr> \<and> least res = \<lparr>r = 0, g = 0, b = 255\<rparr>)"
proof -
  have "clusterColors [\<lparr>r = 255, g = 0, b = 0\<rparr>, \<lparr>r = 0, g = 0, b = 255\<rparr>, \<lparr>r = 254, g = 1, b = 0\<rparr>] =
     [\<lparr>center = \<lparr>r = 509 / 2, g = 1 / 2, b = 0\<rparr>, count = 2\<rparr>,
      \<lparr>center = \<lparr>r = 0, g = 0, b = 255\<rparr>, count = 1\<rparr>]"
    by (simp add: clusterColors_def addColor_def colorDistance_less_iff color8_def channel8_def
        absorb_def movingAverage_def fsub_def fmul_def fadd_def fdiv_def fl_Ints fl_half_Ints)
  then show ?thesis
    using analyzeColors_dominant_least [of "[\<lparr>r = 255, g = 0, b = 0\<rparr>, \<lparr>r = 0, g = 0, b = 255\<rparr>, \<lparr>r = 254, g = 1, b = 0\<rparr>]"]
    by (simp add: sortClusters_def roundColor_def js_round_def)
qed

subsection \<open>The distance test next to the threshold\<close>

text \<open>
  The computed distance of two colours is below 30 whenever their Euclidean distance is at
  most 29.9835: the three differences, the three squares and the two sums are each rounded
  with an error far below the margin, and the rounded root of a number up to
  \<open>(1919 / 64)\<^sup>2\<close> is at most the double \<open>1919 / 64 < 30\<close>.
\<close>

lemma euclidean_norm3: "euclidean c1 c2 = norm3 (r c1 - r c2) (g c1 - g c2) (b c1 - b c2)"
  by (simp add: euclidean_def norm3_def)

lemma norm3_nonneg: "0 \<le> norm3 x y z"
  by (simp add: norm3_def)

lemma abs_le_norm3: "\<bar>x\<bar> \<le> norm3 x y z" "\<bar>y\<bar> \<le> norm3 x y z" "\<bar>z\<bar> \<le> norm3 x y z"
proof -
  have "sqrt (x\<^sup>2) \<le> norm3 x y z" "sqrt (y\<^sup>2) \<le> norm3 x y z" "sqrt (z\<^sup>2) \<le> norm3 x y z"
    unfolding norm3_def by (intro real_sqrt_le_mono; simp)+
  then show "\<bar>x\<bar> \<le> norm3 x y z" "\<bar>y\<bar> \<le> norm3 x y z" "\<bar>z\<bar> \<le> norm3 x y z"
    by simp_all
qed

lemma norm3_le_sum: "norm3 x y z \<le> \<bar>x\<bar> + \<bar>y\<bar> + \<bar>z\<bar>"
proof -
  have "0 \<le> \<bar>x\<bar> * \<bar>y\<bar>" "0 \<le> \<bar>x\<bar> * \<bar>z\<bar>" "0 \<le> \<bar>y\<bar> * \<bar>z\<bar>"
    by simp_all
  then have "x\<^sup>2 + y\<^sup>2 + z\<^sup>2 \<le> (\<bar>x\<bar> + \<bar>y\<bar> + \<bar>z\<bar>)\<^sup>2"
    by (simp add: power2_eq_square algebra_simps)
  then show ?thesis
    unfolding norm3_def by (intro real_le_lsqrt) simp_all
qed

lemma norm3_square: "(norm3 x y z)\<^sup>2 = x\<^sup>2 + y\<^sup>2 + z\<^sup>2"
  by (simp add: norm3_def)

text \<open>One channel: the rounded square of the rounded difference.\<close>

lemma fpow2_near:
  assumes "\<bar>x - y\<bar> \<le> 30"
  shows "\<bar>fpow2 (fsub x y) - (x - y)\<^sup>2\<bar> \<le> 1 / 2 ^ 41" and "0 \<le> fpow2 (fsub x y)"
proof -
  define t where "t = x - y"
  define d where "d = fl t"
  have t: "\<bar>t\<bar> \<le> 30"
    using assms by (simp add: t_def)
  then have "\<bar>t\<bar> \<le> 32"
    by simp
  then have ed: "\<bar>d - t\<bar> \<le> 32 / 2 ^ 53"
    unfolding d_def by (intro fl_error_bound tiny_le) simp_all
  moreover have "32 / 2 ^ 53 \<le> (1::real)"
    by simp
  ultimately have d: "\<bar>d\<bar> \<le> 31"
    using t by linarith
  have "d\<^sup>2 - t\<^sup>2 = (d - t) * (d + t)"
    by (simp add: power2_eq_square algebra_simps)
  then have "\<bar>d\<^sup>2 - t\<^sup>2\<bar> = \<bar>d - t\<bar> * \<bar>d + t\<bar>"
    by (simp add: abs_mult)
  also have "\<dots> \<le> 32 / 2 ^ 53 * 61"
    using ed d t by (intro mult_mono) simp_all
  finally have sq: "\<bar>d\<^sup>2 - t\<^sup>2\<bar> \<le> 32 / 2 ^ 53 * 61" .
  have "\<bar>d\<bar>\<^sup>2 \<le> 31\<^sup>2"
    using d by (intro power_mono) simp_all
  then have "\<bar>d\<^sup>2\<bar> \<le> 1024"
    by simp
  then have ep: "\<bar>fl (d\<^sup>2) - d\<^sup>2\<bar> \<le> 1024 / 2 ^ 53"
    by (intro fl_error_bound tiny_le) simp_all
  have "\<bar>fl (d\<^sup>2) - t\<^sup>2\<bar> \<le> 1024 / 2 ^ 53 + 32 / 2 ^ 53 * 61"
    using ep sq by linarith
  also have "\<dots> \<le> 1 / 2 ^ 41"
    by simp
  finally show "\<bar>fpow2 (fsub x y) - (x - y)\<^sup>2\<bar> \<le> 1 / 2 ^ 41"
    by (simp only: fpow2_def fsub_def d_def t_def)
  show "0 \<le> fpow2 (fsub x y)"
    by (rule fpow2_nonneg)
qed

lemma colorDistance_below:
  assumes "euclidean c1 c2 \<le> 299835 / 10000"
  shows "colorDistance c1 c2 < THRESHOLD"
proof -
  define tr where "tr = r c1 - r c2"
  define tg where "tg = g c1 - g c2"
  define tb where "tb = b c1 - b c2"
  define pr where "pr = fpow2 (fsub (r c1) (r c2))"
  define pg where "pg = fpow2 (fsub (g c1) (g c2))"
  define pb where "pb = fpow2 (fsub (b c1) (b c2))"
  define E where "E = tr\<^sup>2 + tg\<^sup>2 + tb\<^sup>2"
  have n: "norm3 tr tg tb \<le> 299835 / 10000"
    using assms by (simp add: euclidean_norm3 tr_def tg_def tb_def)
  have "(norm3 tr tg tb)\<^sup>2 \<le> (299835 / 10000)\<^sup>2"
    using n norm3_nonneg by (intro power_mono) simp_all
  then have E: "E \<le> (299835 / 10000)\<^sup>2"
    by (simp only: norm3_square E_def)
  have E0: "0 \<le> E"
    by (simp add: E_def)
  have t30: "\<bar>tr\<bar> \<le> 30" "\<bar>tg\<bar> \<le> 30" "\<bar>tb\<bar> \<le> 30"
    using n abs_le_norm3 [where x = tr and y = tg and z = tb] by linarith+
  note u30 = t30 [unfolded tr_def tg_def tb_def]
  have p: "\<bar>pr - tr\<^sup>2\<bar> \<le> 1 / 2 ^ 41" "\<bar>pg - tg\<^sup>2\<bar> \<le> 1 / 2 ^ 41" "\<bar>pb - tb\<^sup>2\<bar> \<le> 1 / 2 ^ 41"
    unfolding pr_def pg_def pb_def tr_def tg_def tb_def
    by (rule fpow2_near(1) [OF u30(1)], rule fpow2_near(1) [OF u30(2)], rule fpow2_near(1) [OF u30(3)])
  have p0: "0 \<le> pr" "0 \<le> pg" "0 \<le> pb"
    unfolding pr_def pg_def pb_def by (rule fpow2_nonneg)+
  define e where "e = (1::real) / 2 ^ 41"
  define e' where "e' = (1024::real) / 2 ^ 53"
  have small: "e \<le> 1" "e' \<le> 1"
    by (simp_all add: e_def e'_def)
  note q = p [folded e_def]
  have sq0: "0 \<le> tr\<^sup>2" "0 \<le> tg\<^sup>2" "0 \<le> tb\<^sup>2"
    by simp_all
  have Eb: "E \<le> 900"
    using E by (simp add: power2_eq_square)
  define s1 where "s1 = fadd pr pg"
  define s2 where "s2 = fadd s1 pb"
  have "\<bar>pr + pg\<bar> \<le> 1024"
    using q p0 sq0 Eb small unfolding E_def by linarith
  then have "\<bar>s1 - (pr + pg)\<bar> \<le> 1024 / 2 ^ 53"
    unfolding s1_def fadd_def by (intro fl_error_bound tiny_le) simp_all
  then have e1: "\<bar>s1 - (pr + pg)\<bar> \<le> e'"
    by (simp only: e'_def)
  have s10: "0 \<le> s1"
    unfolding s1_def fadd_def using p0 by (intro fl_nonneg) simp
  have "\<bar>s1 + pb\<bar> \<le> 1024"
    using e1 q p0 s10 sq0 Eb small unfolding E_def by linarith
  then have "\<bar>s2 - (s1 + pb)\<bar> \<le> 1024 / 2 ^ 53"
    unfolding s2_def fadd_def by (intro fl_error_bound tiny_le) simp_all
  then have e2: "\<bar>s2 - (s1 + pb)\<bar> \<le> e'"
    by (simp only: e'_def)
  have s20: "0 \<le> s2"
    unfolding s2_def fadd_def using p0 s10 by (intro fl_nonneg) simp
  have "s2 \<le> E + (3 * e + 2 * e')"
    using e1 e2 q unfolding E_def by linarith
  also have "\<dots> \<le> (299835 / 10000)\<^sup>2 + (3 * e + 2 * e')"
    using E by simp
  also have "\<dots> \<le> (1919 / 64)\<^sup>2"
    by (simp add: power2_eq_square e_def e'_def)
  finally have "sqrt s2 \<le> sqrt ((1919 / 64)\<^sup>2)"
    by (simp only: real_sqrt_le_iff)
  then have "sqrt s2 \<le> 1919 / 64"
    by simp
  moreover have "fl (1919 / 64) = 1919 / 64"
    using fl_dyadic [of 1919 6] by simp
  ultimately have "fl (sqrt s2) \<le> 1919 / 64"
    by (intro fl_le)
  then have "colorDistance c1 c2 \<le> 1919 / 64"
    by (simp only: colorDistance_def fsqrt_def s2_def s1_def pr_def pg_def pb_def)
  then show ?thesis
    by (simp add: THRESHOLD_def)
qed

subsection \<open>A single cluster\<close>

text \<open>
  A colour that is closer than \<open>d\<close> to every member of a sequence is closer than \<open>d\<close>
  to the mean of the sequence: the triangle inequality for three channels, from the one for
  two that the library has.
\<close>

lemma norm3_nest: "norm3 x y z = sqrt ((sqrt (x\<^sup>2 + y\<^sup>2))\<^sup>2 + z\<^sup>2)"
  by (simp add: norm3_def)

lemma norm3_triangle: "norm3 (x + x') (y + y') (z + z') \<le> norm3 x y z + norm3 x' y' z'"
proof -
  let ?p = "sqrt (x\<^sup>2 + y\<^sup>2)" and ?q = "sqrt (x'\<^sup>2 + y'\<^sup>2)"
  have plane: "sqrt ((x + x')\<^sup>2 + (y + y')\<^sup>2) \<le> ?p + ?q"
    by (rule real_sqrt_sum_squares_triangle_ineq)
  have nonneg: "0 \<le> sqrt ((x + x')\<^sup>2 + (y + y')\<^sup>2)"
    by simp
  have "(sqrt ((x + x')\<^sup>2 + (y + y')\<^sup>2))\<^sup>2 \<le> (?p + ?q)\<^sup>2"
    using plane nonneg by (rule power_mono)
  then have "norm3 (x + x') (y + y') (z + z') \<le> sqrt ((?p + ?q)\<^sup>2 + (z + z')\<^sup>2)"
    unfolding norm3_nest by (intro real_sqrt_le_mono) simp
  also have "\<dots> \<le> sqrt (?p\<^sup>2 + z\<^sup>2) + sqrt (?q\<^sup>2 + z'\<^sup>2)"
    by (rule real_sqrt_sum_squares_triangle_ineq)
  finally show ?thesis
    by (simp add: norm3_nest)
qed

lemma norm3_divide:
  assumes "0 < n"
  shows "norm3 (x / n) (y / n) (z / n) = norm3 x y z / n"
proof -
  have "(x / n)\<^sup>2 + (y / n)\<^sup>2 + (z / n)\<^sup>2 = (x\<^sup>2 + y\<^sup>2 + z\<^sup>2) / n\<^sup>2"
    by (simp add: power_divide add_divide_distrib)
  then show ?thesis
    using assms by (simp add: norm3_def real_sqrt_divide)
qed

lemma norm3_sum_list:
  "norm3 (sum_list (map f xs)) (sum_list (map f' xs)) (sum_list (map f'' xs))
     \<le> sum_list (map (\<lambda>x. norm3 (f x) (f' x) (f'' x)) xs)"
proof (induction xs)
  case Nil
  show ?case by (simp add: norm3_def)
next
  case (Cons x xs)
  have "norm3 (f x + sum_list (map f xs)) (f' x + sum_list (map f' xs)) (f'' x + sum_list (map f'' xs))
      \<le> norm3 (f x) (f' x) (f'' x) + norm3 (sum_list (map f xs)) (sum_list (map f' xs)) (sum_list (map f'' xs))"
    by (rule norm3_triangle)
  with Cons.IH show ?case by simp
qed

lemma sum_list_strict_bound:
  fixes d :: real
  assumes "xs \<noteq> []" and "\<forall>x\<in>set xs. f x < d"
  shows "sum_list (map f xs) < real (length xs) * d"
  using assms
proof (induction xs rule: list_nonempty_induct)
  case (single x)
  then show ?case by simp
next
  case (cons x xs)
  then have "f x < d" "sum_list (map f xs) < real (length xs) * d" by simp_all
  then show ?case by (simp add: algebra_simps)
qed

lemma sum_list_diff_const:
  fixes f :: "'a \<Rightarrow> real"
  shows "sum_list (map (\<lambda>x. a - f x) xs) = real (length xs) * a - sum_list (map f xs)"
  by (induction xs) (simp_all add: algebra_simps)

lemma euclidean_meanColor:
  assumes "cs \<noteq> []" and "\<forall>x\<in>set cs. euclidean c x < d"
  shows "euclidean c (meanColor cs) < d"
proof -
  let ?n = "real (length cs)"
  from assms(1) have n: "0 < ?n" by simp
  have ch: "a - sum_list (map f cs) / ?n = sum_list (map (\<lambda>x. a - f x) cs) / ?n"
    for a and f :: "color \<Rightarrow> real"
    using n by (simp add: sum_list_diff_const diff_divide_distrib)
  have "euclidean c (meanColor cs) =
      norm3 (sum_list (map (\<lambda>x. r c - r x) cs)) (sum_list (map (\<lambda>x. g c - g x) cs))
        (sum_list (map (\<lambda>x. b c - b x) cs)) / ?n"
    using n by (simp add: euclidean_norm3 meanColor_def ch norm3_divide)
  also have "\<dots> \<le> sum_list (map (\<lambda>x. euclidean c x) cs) / ?n"
    unfolding euclidean_norm3 using n
    by (intro divide_right_mono norm3_sum_list) simp
  also have "\<dots> < d"
    using sum_list_strict_bound [OF assms] n by (simp add: pos_divide_less_eq mult.commute)
  finally show ?thesis .
qed

lemma euclidean_triangle: "euclidean c1 c3 \<le> euclidean c1 c2 + euclidean c2 c3"
proof -
  have "norm3 ((r c1 - r c2) + (r c2 - r c3)) ((g c1 - g c2) + (g c2 - g c3))
      ((b c1 - b c2) + (b c2 - b c3)) \<le>
    norm3 (r c1 - r c2) (g c1 - g c2) (b c1 - b c2) + norm3 (r c2 - r c3) (g c2 - g c3) (b c2 - b c3)"
    by (rule norm3_triangle)
  then show ?thesis
    by (simp add: euclidean_norm3)
qed

lemma euclidean_channelsWithin:
  assumes "channelsWithin e c1 c2"
  shows "euclidean c1 c2 \<le> 3 * e"
proof -
  have "euclidean c1 c2 \<le> \<bar>r c1 - r c2\<bar> + \<bar>g c1 - g c2\<bar> + \<bar>b c1 - b c2\<bar>"
    unfolding euclidean_norm3 by (rule norm3_le_sum)
  with assms show ?thesis
    by (simp add: channelsWithin_def)
qed

text \<open>
  Two colours with integer channels at a distance below 30 have a sum of squares of at
  most 899, so their distance is at most \<open>sqrt 899 < 29.9834\<close>.
\<close>

lemma euclidean_color8:
  assumes "color8 c1" and "color8 c2" and "euclidean c1 c2 < 30"
  shows "euclidean c1 c2 \<le> 299834 / 10000"
proof -
  let ?s = "(r c1 - r c2)\<^sup>2 + (g c1 - g c2)\<^sup>2 + (b c1 - b c2)\<^sup>2"
  have "?s \<in> \<int>"
    using assms(1,2) by (simp add: color8_def channel8_def)
  then obtain m where m: "?s = real_of_int m"
    by (auto elim: Ints_cases)
  from assms(3) have "?s < 900"
    by (simp add: euclidean_less_iff)
  with m have "real_of_int m < 900"
    by simp
  then have "m \<le> 899"
    by simp
  then have "?s \<le> 899"
    using m by simp
  also have "(899::real) \<le> (299834 / 10000)\<^sup>2"
    by (simp add: power2_eq_square)
  finally have "sqrt ?s \<le> sqrt ((299834 / 10000)\<^sup>2)"
    by (simp only: real_sqrt_le_iff)
  then show ?thesis
    by (simp add: euclidean_def)
qed

text \<open>The mean of colours with channels in \<open>[0, 255]\<close> has its channels in \<open>[0, 255]\<close>.\<close>

lemma sum_list_bounds:
  fixes f :: "'a \<Rightarrow> real"
  assumes "\<forall>x\<in>set xs. 0 \<le> f x \<and> f x \<le> m"
  shows "0 \<le> sum_list (map f xs) \<and> sum_list (map f xs) \<le> real (length xs) * m"
  using assms by (induction xs) (auto simp: algebra_simps)

lemma mean_bounds:
  fixes f :: "'a \<Rightarrow> real"
  assumes "xs \<noteq> []" and "\<forall>x\<in>set xs. 0 \<le> f x \<and> f x \<le> m"
  shows "0 \<le> sum_list (map f xs) / real (length xs)" and "sum_list (map f xs) / real (length xs) \<le> m"
proof -
  from assms(1) have n: "0 < real (length xs)"
    by simp
  from sum_list_bounds [OF assms(2)]
  have s: "0 \<le> sum_list (map f xs)" "sum_list (map f xs) \<le> real (length xs) * m"
    by simp_all
  show "0 \<le> sum_list (map f xs) / real (length xs)"
    using s(1) n by simp
  show "sum_list (map f xs) / real (length xs) \<le> m"
    using s(2) n by (simp add: pos_divide_le_eq mult.commute)
qed

lemma meanColor_bounds:
  assumes "cs \<noteq> []" and "\<forall>c\<in>set cs. color8 c"
  shows "0 \<le> r (meanColor cs)" "r (meanColor cs) \<le> 255"
    "0 \<le> g (meanColor cs)" "g (meanColor cs) \<le> 255"
    "0 \<le> b (meanColor cs)" "b (meanColor cs) \<le> 255"
proof -
  have "\<forall>c\<in>set cs. 0 \<le> r c \<and> r c \<le> 255" "\<forall>c\<in>set cs. 0 \<le> g c \<and> g c \<le> 255"
    "\<forall>c\<in>set cs. 0 \<le> b c \<and> b c \<le> 255"
    using assms(2) by (simp_all add: color8_def channel8_def)
  then show "0 \<le> r (meanColor cs)" "r (meanColor cs) \<le> 255"
    "0 \<le> g (meanColor cs)" "g (meanColor cs) \<le> 255"
    "0 \<le> b (meanColor cs)" "b (meanColor cs) \<le> 255"
    using mean_bounds [OF assms(1), of r 255] mean_bounds [OF assms(1), of g 255]
      mean_bounds [OF assms(1), of b 255]
    by (simp_all add: meanColor_def)
qed

text \<open>
  One channel of one update: the centre is within \<open>e\<close> of the mean of the \<open>n\<close> colours so
  far, and afterwards within \<open>e + 2^-41\<close> of the mean of the \<open>n + 1\<close> colours.
\<close>

lemma movingAverage_mean:
  assumes "\<bar>channel - s / real n\<bar> \<le> e" and "0 \<le> s / real n" and "s / real n \<le> 255" and "e \<le> 1"
    and "0 \<le> x" and "x \<le> 255" and "0 < n" and "n < 2 ^ 53"
  shows "\<bar>movingAverage channel (n + 1) x - (s + x) / real (n + 1)\<bar> \<le> e + 1 / 2 ^ 41"
proof -
  define mu where "mu = s / real n"
  have s: "s = mu * real n"
    using assms(7) by (simp add: mu_def)
  have ch: "\<bar>channel\<bar> \<le> 256"
    using assms(1-4) by (simp add: mu_def abs_le_iff)
  have x: "\<bar>x\<bar> \<le> 256"
    using assms(5,6) by simp
  note near = movingAverage_near [OF ch x assms(8)]
  define N where "N = real (n + 1)"
  have N: "0 < N" and rn: "real n = N - 1"
    by (simp_all add: N_def)
  have "(channel + (x - channel) / N) - (mu * (N - 1) + x) / N = (channel - mu) * ((N - 1) / N)"
    using N by (simp add: field_simps)
  then have "\<bar>(channel + (x - channel) / N) - (mu * (N - 1) + x) / N\<bar> =
      \<bar>channel - mu\<bar> * ((N - 1) / N)"
    using N rn by (simp add: abs_mult)
  also have "\<dots> \<le> e * 1"
    using assms(1) N rn by (intro mult_mono) (simp_all add: mu_def)
  finally have "\<bar>(channel + (x - channel) / N) - (mu * (N - 1) + x) / N\<bar> \<le> e"
    by simp
  then have "\<bar>(channel + (x - channel) / real (n + 1)) - (s + x) / real (n + 1)\<bar> \<le> e"
    by (simp only: s rn N_def [symmetric])
  with near show ?thesis
    by linarith
qed

lemma clusterColors_single:
  assumes "cs \<noteq> []" and "length cs \<le> 2 ^ 20" and "\<forall>c\<in>set cs. color8 c"
    and "\<forall>c1\<in>set cs. \<forall>c2\<in>set cs. euclidean c1 c2 < 30"
  shows "\<exists>ctr. clusterColors cs = [\<lparr>center = ctr, count = length cs\<rparr>] \<and>
     channelsWithin (real (length cs - 1) / 2 ^ 41) ctr (meanColor cs)"
  using assms
proof (induction cs rule: rev_nonempty_induct)
  case (single c)
  show ?case
    by (simp add: clusterColors_def addColor_def meanColor_def channelsWithin_def)
next
  case (snoc c cs)
  define n where "n = length cs"
  define e where "e = real (n - 1) / 2 ^ 41"
  define mu where "mu = meanColor cs"
  from snoc.hyps have n0: "0 < n"
    by (simp add: n_def)
  from snoc.prems(1) have n20: "n < 2 ^ 20"
    by (simp add: n_def)
  then have n53: "n < 2 ^ 53"
    by simp
  from snoc.prems have "length cs \<le> 2 ^ 20" "\<forall>c\<in>set cs. color8 c"
    "\<forall>c1\<in>set cs. \<forall>c2\<in>set cs. euclidean c1 c2 < 30"
    by simp_all
  with snoc.IH obtain ctr where cl: "clusterColors cs = [\<lparr>center = ctr, count = n\<rparr>]"
    and near: "channelsWithin e ctr mu"
    unfolding n_def e_def mu_def by blast
  from snoc.prems(2) have c8: "color8 c" and cs8: "\<forall>x\<in>set cs. color8 x"
    by simp_all
  have "real (n - 1) \<le> 2 ^ 20"
    using n20 by simp
  then have "e \<le> 2 ^ 20 / 2 ^ 41"
    unfolding e_def by (intro divide_right_mono) simp_all
  then have e: "e \<le> 1 / 2 ^ 21"
    by simp
  have e0: "0 \<le> e"
    by (simp add: e_def)
  txt \<open>the distance test\<close>
  have "\<forall>x\<in>set cs. euclidean c x < 2998345 / 100000"
  proof
    fix x assume x: "x \<in> set cs"
    with snoc.prems(3) have "euclidean c x < 30"
      by simp
    from euclidean_color8 [OF c8 _ this] x cs8 have "euclidean c x \<le> 299834 / 10000"
      by simp
    then show "euclidean c x < 2998345 / 100000"
      by simp
  qed
  with snoc.hyps have "euclidean c mu < 2998345 / 100000"
    unfolding mu_def by (rule euclidean_meanColor)
  moreover have "euclidean mu ctr \<le> 3 * e"
    using near by (intro euclidean_channelsWithin) (simp add: channelsWithin_def abs_minus_commute)
  moreover have "euclidean c ctr \<le> euclidean c mu + euclidean mu ctr"
    by (rule euclidean_triangle)
  ultimately have "euclidean c ctr \<le> 299835 / 10000"
    using e by simp
  then have "colorDistance c ctr < THRESHOLD"
    by (rule colorDistance_below)
  then have "addColor [\<lparr>center = ctr, count = n\<rparr>] c = [absorb \<lparr>center = ctr, count = n\<rparr> c]"
    by (simp add: addColor_def)
  with cl have step: "clusterColors (cs @ [c]) = [absorb \<lparr>center = ctr, count = n\<rparr> c]"
    by (simp add: clusterColors_snoc)
  txt \<open>the new centre\<close>
  note mb = meanColor_bounds [OF snoc.hyps cs8]
  have e1: "e \<le> 1"
    using e by simp
  have c255: "0 \<le> r c" "r c \<le> 255" "0 \<le> g c" "g c \<le> 255" "0 \<le> b c" "b c \<le> 255"
    using c8 by (simp_all add: color8_def channel8_def)
  have nr: "\<bar>r ctr - sum_list (map r cs) / real n\<bar> \<le> e"
    and ng: "\<bar>g ctr - sum_list (map g cs) / real n\<bar> \<le> e"
    and nb: "\<bar>b ctr - sum_list (map b cs) / real n\<bar> \<le> e"
    using near by (simp_all add: channelsWithin_def mu_def meanColor_def n_def)
  have br: "0 \<le> sum_list (map r cs) / real n" "sum_list (map r cs) / real n \<le> 255"
    and bg: "0 \<le> sum_list (map g cs) / real n" "sum_list (map g cs) / real n \<le> 255"
    and bb: "0 \<le> sum_list (map b cs) / real n" "sum_list (map b cs) / real n \<le> 255"
    using mb by (simp_all add: meanColor_def n_def)
  have "real (n - 1) = real n - 1"
    using n0 by (simp add: of_nat_diff)
  then have e': "e + 1 / 2 ^ 41 = real (length (cs @ [c]) - 1) / 2 ^ 41"
    by (simp add: e_def n_def add_divide_distrib [symmetric])
  have "\<bar>movingAverage (r ctr) (n + 1) (r c) - (sum_list (map r cs) + r c) / real (n + 1)\<bar> \<le> e + 1 / 2 ^ 41"
    "\<bar>movingAverage (g ctr) (n + 1) (g c) - (sum_list (map g cs) + g c) / real (n + 1)\<bar> \<le> e + 1 / 2 ^ 41"
    "\<bar>movingAverage (b ctr) (n + 1) (b c) - (sum_list (map b cs) + b c) / real (n + 1)\<bar> \<le> e + 1 / 2 ^ 41"
    by (rule movingAverage_mean [OF nr br e1 c255(1,2) n0 n53],
        rule movingAverage_mean [OF ng bg e1 c255(3,4) n0 n53],
        rule movingAverage_mean [OF nb bb e1 c255(5,6) n0 n53])
  then have "channelsWithin (e + 1 / 2 ^ 41) (center (absorb \<lparr>center = ctr, count = n\<rparr> c))
      (meanColor (cs @ [c]))"
    unfolding channelsWithin_def
    by (simp add: absorb_def Let_def meanColor_def n_def del: of_nat_Suc)
  then have "channelsWithin (real (length (cs @ [c]) - 1) / 2 ^ 41)
      (center (absorb \<lparr>center = ctr, count = n\<rparr> c)) (meanColor (cs @ [c]))"
    by (simp only: e')
  moreover have "absorb \<lparr>center = ctr, count = n\<rparr> c =
      \<lparr>center = center (absorb \<lparr>center = ctr, count = n\<rparr> c), count = length (cs @ [c])\<rparr>"
    by (simp add: absorb_def Let_def n_def)
  ultimately show ?case
    using step by metis
qed

text \<open>Rounding two numbers that are close to one another.\<close>

lemma js_round_near:
  assumes "\<bar>x - y\<bar> \<le> 1"
  shows "\<bar>real_of_int (js_round x) - real_of_int (js_round y)\<bar> \<le> 1"
proof -
  have a: "x + 1 / 2 \<le> (y + 1 / 2) + 1" and b: "y + 1 / 2 \<le> (x + 1 / 2) + 1"
    using assms by linarith+
  have up: "\<lfloor>z + 1\<rfloor> = \<lfloor>z\<rfloor> + 1" for z :: real
    using floor_add_int [of z 1, symmetric] unfolding of_int_1 .
  have "\<lfloor>x + 1 / 2\<rfloor> \<le> \<lfloor>(y + 1 / 2) + 1\<rfloor>"
    using a by (rule floor_mono)
  then have "js_round x \<le> js_round y + 1"
    by (simp only: up js_round_def)
  have "\<lfloor>y + 1 / 2\<rfloor> \<le> \<lfloor>(x + 1 / 2) + 1\<rfloor>"
    using b by (rule floor_mono)
  then have "js_round y \<le> js_round x + 1"
    by (simp only: up js_round_def)
  with \<open>js_round x \<le> js_round y + 1\<close> have "\<bar>js_round x - js_round y\<bar> \<le> 1"
    by simp
  then have "real_of_int \<bar>js_round x - js_round y\<bar> \<le> real_of_int 1"
    by (simp only: of_int_le_iff)
  then show ?thesis
    by simp
qed

lemma js_round_away_from_tie:
  assumes "\<bar>x - y\<bar> \<le> e" and "e < 1 / 2" and "\<not> nearTie e y"
  shows "js_round x = js_round y"
proof -
  define k where "k = \<lfloor>y\<rfloor>"
  have k: "real_of_int k \<le> y" "y < real_of_int k + 1"
    unfolding k_def by linarith+
  have fr: "frac y = y - real_of_int k"
    by (simp add: frac_def k_def)
  from assms(3) consider "y - real_of_int k < 1 / 2 - e" | "1 / 2 + e < y - real_of_int k"
    unfolding nearTie_def fr by linarith
  then show ?thesis
  proof cases
    case 1
    have "\<lfloor>x + 1 / 2\<rfloor> = k"
      using 1 k assms(1,2) by (intro floor_unique) linarith+
    moreover have "\<lfloor>y + 1 / 2\<rfloor> = k"
      using 1 k assms(1,2) by (intro floor_unique) linarith+
    ultimately show ?thesis
      by (simp add: js_round_def)
  next
    case 2
    have "\<lfloor>x + 1 / 2\<rfloor> = k + 1"
      using 2 k assms(1,2) by (intro floor_unique) (simp; linarith)+
    moreover have "\<lfloor>y + 1 / 2\<rfloor> = k + 1"
      using 2 k assms(1,2) by (intro floor_unique) (simp; linarith)+
    ultimately show ?thesis
      by (simp add: js_round_def)
  qed
qed

text \<open>
  Claim C8, amended. For every non-empty sequence of at most \<open>2^20\<close> colours with integer
  channels in \<open>[0, 255]\<close> whose pairwise Euclidean distances are strictly below 30,
  \<open>analyzeColors\<close> forms a single cluster that holds all the colours; its centre is, channel
  by channel, within \<open>2^-21\<close> of the mean of the colours (the centre is computed in doubles,
  the distance to the mean is the rounding error of the updates). \<open>dominant\<close> and \<open>least\<close>
  are both the rounded centre, \<open>average\<close> is the rounded mean, and so \<open>dominant\<close> and
  \<open>least\<close> are equal and differ from \<open>average\<close> by at most 1 in each channel; they are
  equal to \<open>average\<close> whenever no channel of the mean lies within \<open>2^-21\<close> of a tie of the
  rounding, that is of a number \<open>k + 1/2\<close>.
\<close>

theorem analyzeColors_single_cluster:
  assumes "cols \<noteq> []" and "length cols \<le> 2 ^ 20" and "\<forall>c\<in>set cols. color8 c"
    and "\<forall>c1\<in>set cols. \<forall>c2\<in>set cols. euclidean c1 c2 < 30"
  shows "\<exists>res cl. analyzeColors cols = Some res \<and> clusterColors cols = [cl] \<and>
     count cl = length cols \<and>
     channelsWithin (1 / 2 ^ 21) (center cl) (meanColor cols) \<and>
     dominant res = roundColor (center cl) \<and> least res = roundColor (center cl) \<and>
     average res = roundColor (meanColor cols) \<and>
     channelsWithin 1 (dominant res) (average res) \<and>
     (\<not> nearTie (1 / 2 ^ 21) (r (meanColor cols)) \<and> \<not> nearTie (1 / 2 ^ 21) (g (meanColor cols)) \<and>
      \<not> nearTie (1 / 2 ^ 21) (b (meanColor cols)) \<longrightarrow>
        dominant res = average res)"
proof -
  from clusterColors_single [OF assms] obtain ctr
    where cl: "clusterColors cols = [\<lparr>center = ctr, count = length cols\<rparr>]"
      and near: "channelsWithin (real (length cols - 1) / 2 ^ 41) ctr (meanColor cols)"
    by blast
  let ?mu = "meanColor cols"
  let ?res = "\<lparr>average = roundColor ?mu, dominant = roundColor ctr, least = roundColor ctr\<rparr>"
  have "real (length cols - 1) \<le> 2 ^ 20"
    using assms(2) by simp
  then have "real (length cols - 1) / 2 ^ 41 \<le> 2 ^ 20 / 2 ^ 41"
    by (intro divide_right_mono) simp_all
  then have "real (length cols - 1) / 2 ^ 41 \<le> 1 / 2 ^ 21"
    by simp
  with near have n: "\<bar>r ctr - r ?mu\<bar> \<le> 1 / 2 ^ 21" "\<bar>g ctr - g ?mu\<bar> \<le> 1 / 2 ^ 21"
    "\<bar>b ctr - b ?mu\<bar> \<le> 1 / 2 ^ 21"
    by (simp_all add: channelsWithin_def)
  have small: "(1::real) / 2 ^ 21 \<le> 1" "(1::real) / 2 ^ 21 < 1 / 2"
    by simp_all
  have res: "analyzeColors cols = Some ?res"
    using assms(1) by (simp add: analyzeColors_Some cl sortClusters_def roundColor_def meanColor_def)
  have within: "channelsWithin (1 / 2 ^ 21) ctr ?mu"
    using n by (simp add: channelsWithin_def)
  have "\<bar>r ctr - r ?mu\<bar> \<le> 1" "\<bar>g ctr - g ?mu\<bar> \<le> 1" "\<bar>b ctr - b ?mu\<bar> \<le> 1"
    using n small(1) by linarith+
  then have one: "channelsWithin 1 (roundColor ctr) (roundColor ?mu)"
    unfolding channelsWithin_def roundColor_def by (simp add: js_round_near)
  have eq: "roundColor ctr = roundColor ?mu"
    if "\<not> nearTie (1 / 2 ^ 21) (r ?mu) \<and> \<not> nearTie (1 / 2 ^ 21) (g ?mu) \<and>
        \<not> nearTie (1 / 2 ^ 21) (b ?mu)"
    unfolding roundColor_def
    using that js_round_away_from_tie [OF n(1) small(2)] js_round_away_from_tie [OF n(2) small(2)]
      js_round_away_from_tie [OF n(3) small(2)]
    by simp
  show ?thesis
    using res cl within one eq
    by (intro exI [of _ ?res] exI [of _ "\<lparr>center = ctr, count = length cols\<rparr>"]) simp
qed

theorem analyzeColors_single_cluster_witness:
  "\<exists>res. analyzeColors [\<lparr>r = 10, g = 20, b = 30\<rparr>, \<lparr>r = 12, g = 25, b = 30\<rparr>, \<lparr>r = 9, g = 20, b = 41\<rparr>] = Some res \<and>
     length (clusterColors [\<lparr>r = 10, g = 20, b = 30\<rparr>, \<lparr>r = 12, g = 25, b = 30\<rparr>, \<lparr>r = 9, g = 20, b = 41\<rparr>]) = 1 \<and>
     dominant res = \<lparr>r = 10, g = 22, b = 34\<rparr> \<and> least res = \<lparr>r = 10, g = 22, b = 34\<rparr> \<and>
     average res = \<lparr>r = 10, g = 22, b = 34\<rparr>"
proof -
  let ?cs = "[\<lparr>r = 10, g = 20, b = 30\<rparr>, \<lparr>r = 12, g = 25, b = 30\<rparr>, \<lparr>r = 9, g = 20, b = 41\<rparr>]"
  have ne: "?cs \<noteq> []" and len: "length ?cs \<le> 2 ^ 20"
    by simp_all
  have eight: "\<forall>c\<in>set ?cs. color8 c"
    by (simp add: color8_def channel8_def)
  have close: "\<forall>c1\<in>set ?cs. \<forall>c2\<in>set ?cs. euclidean c1 c2 < 30"
    by (simp add: euclidean_less_iff)
  have mu: "meanColor ?cs = \<lparr>r = 31 / 3, g = 65 / 3, b = 101 / 3\<rparr>"
    by (simp add: meanColor_def)
  have ties: "\<not> nearTie (1 / 2 ^ 21) (r (meanColor ?cs)) \<and> \<not> nearTie (1 / 2 ^ 21) (g (meanColor ?cs)) \<and>
      \<not> nearTie (1 / 2 ^ 21) (b (meanColor ?cs))"
    by (simp add: mu nearTie_def frac_def)
  from analyzeColors_single_cluster [OF ne len eight close] ties obtain res cl where
    res: "analyzeColors ?cs = Some res" "clusterColors ?cs = [cl]"
      "least res = roundColor (center cl)" "dominant res = roundColor (center cl)"
      "average res = roundColor (meanColor ?cs)" "dominant res = average res"
    by blast
  have "roundColor (meanColor ?cs) = \<lparr>r = 10, g = 22, b = 34\<rparr>"
    by (simp add: mu roundColor_def js_round_def)
  with res show ?thesis
    by simp
qed

text \<open>
  The claim as it was worded takes colours that are pairwise within the threshold: two
  colours at a distance of exactly 30 are put in two clusters, and \<open>dominant\<close>, \<open>least\<close>
  and \<open>average\<close> are three different colours.
\<close>

theorem analyzeColors_single_cluster_counterexample:
  "euclidean \<lparr>r = 0, g = 0, b = 0\<rparr> \<lparr>r = 20, g = 20, b = 10\<rparr> = 30 \<and>
   euclidean \<lparr>r = 20, g = 20, b = 10\<rparr> \<lparr>r = 0, g = 0, b = 0\<rparr> = 30 \<and>
   euclidean \<lparr>r = 0, g = 0, b = 0\<rparr> \<lparr>r = 0, g = 0, b = 0\<rparr> = 0 \<and>
   euclidean \<lparr>r = 20, g = 20, b = 10\<rparr> \<lparr>r = 20, g = 20, b = 10\<rparr> = 0 \<and>
   length (clusterColors [\<lparr>r = 0, g = 0, b = 0\<rparr>, \<lparr>r = 20, g = 20, b = 10\<rparr>]) = 2 \<and>
   analyzeColors [\<lparr>r = 0, g = 0, b = 0\<rparr>, \<lparr>r = 20, g = 20, b = 10\<rparr>] =
     Some \<lparr>average = \<lparr>r = 10, g = 10, b = 5\<rparr>, dominant = \<lparr>r = 0, g = 0, b = 0\<rparr>,
           least = \<lparr>r = 20, g = 20, b = 10\<rparr>\<rparr>"
proof -
  have eight: "color8 \<lparr>r = 0, g = 0, b = 0\<rparr>" "color8 \<lparr>r = 20, g = 20, b = 10\<rparr>"
    by (simp_all add: color8_def channel8_def)
  have "euclidean \<lparr>r = 0, g = 0, b = 0\<rparr> \<lparr>r = 20, g = 20, b = 10\<rparr> = sqrt 900"
    "euclidean \<lparr>r = 20, g = 20, b = 10\<rparr> \<lparr>r = 0, g = 0, b = 0\<rparr> = sqrt 900"
    by (simp_all add: euclidean_def)
  then have a: "euclidean \<lparr>r = 0, g = 0, b = 0\<rparr> \<lparr>r = 20, g = 20, b = 10\<rparr> = 30"
    "euclidean \<lparr>r = 20, g = 20, b = 10\<rparr> \<lparr>r = 0, g = 0, b = 0\<rparr> = 30"
    by (simp_all only: sqrt_900)
  have z: "euclidean \<lparr>r = 0, g = 0, b = 0\<rparr> \<lparr>r = 0, g = 0, b = 0\<rparr> = 0"
    "euclidean \<lparr>r = 20, g = 20, b = 10\<rparr> \<lparr>r = 20, g = 20, b = 10\<rparr> = 0"
    by (simp_all add: euclidean_def)
  have b: "clusterColors [\<lparr>r = 0, g = 0, b = 0\<rparr>, \<lparr>r = 20, g = 20, b = 10\<rparr>] =
     [\<lparr>center = \<lparr>r = 0, g = 0, b = 0\<rparr>, count = 1\<rparr>, \<lparr>center = \<lparr>r = 20, g = 20, b = 10\<rparr>, count = 1\<rparr>]"
    by (simp add: clusterColors_def addColor_def colorDistance_less_iff eight)
  have c: "analyzeColors [\<lparr>r = 0, g = 0, b = 0\<rparr>, \<lparr>r = 20, g = 20, b = 10\<rparr>] =
     Some \<lparr>average = \<lparr>r = 10, g = 10, b = 5\<rparr>, dominant = \<lparr>r = 0, g = 0, b = 0\<rparr>,
           least = \<lparr>r = 20, g = 20, b = 10\<rparr>\<rparr>"
    by (simp add: analyzeColors_def Let_def b totals_def addTotals_def sortClusters_def
        roundColor_def js_round_def)
  from a z b c show ?thesis
    by simp
qed

text \<open>
  Next to a tie the bound of 1 is attained. Eight colours with the red channels 128, 122,
  132, 133, 125, 126, 133, 121 have the mean 127.5, which rounds to 128; the centre of
  their cluster ends, after seven rounded updates, as the double just below 127.5, which
  rounds to 127.
\<close>

lemma movingAverage_eval:
  assumes "k < 2 ^ 53" and "fl (channel * real k) = a" and "fl (a + x) = s"
    and "fl (s / real (k + 1)) = t"
  shows "movingAverage channel (k + 1) x = t"
  unfolding movingAverage_def fsub_real_1 [OF assms(1)] fmul_def fadd_def fdiv_def
  by (simp only: assms(2,3,4))

lemma movingAverage_zero: "movingAverage 0 n 0 = 0"
  by (simp add: movingAverage_def fmul_def fadd_def fdiv_def)

lemma clusterColors_red_step:
  assumes "clusterColors cs = [\<lparr>center = \<lparr>r = c, g = 0, b = 0\<rparr>, count = k\<rparr>]"
    and "\<bar>x - c\<bar> \<le> 29" and "movingAverage c (k + 1) x = c'"
  shows "clusterColors (cs @ [\<lparr>r = x, g = 0, b = 0\<rparr>]) =
     [\<lparr>center = \<lparr>r = c', g = 0, b = 0\<rparr>, count = k + 1\<rparr>]"
proof -
  have "euclidean \<lparr>r = x, g = 0, b = 0\<rparr> \<lparr>r = c, g = 0, b = 0\<rparr> = \<bar>x - c\<bar>"
    by (simp add: euclidean_def)
  with assms(2) have "colorDistance \<lparr>r = x, g = 0, b = 0\<rparr> \<lparr>r = c, g = 0, b = 0\<rparr> < THRESHOLD"
    by (intro colorDistance_below) simp
  then show ?thesis
    using assms(3)
    by (simp add: clusterColors_snoc assms(1) addColor_def absorb_def Let_def movingAverage_zero)
qed

lemma analyzeColors_near_tie:
  "analyzeColors
     [\<lparr>r = 128, g = 0, b = 0\<rparr>, \<lparr>r = 122, g = 0, b = 0\<rparr>, \<lparr>r = 132, g = 0, b = 0\<rparr>, \<lparr>r = 133, g = 0, b = 0\<rparr>, \<lparr>r = 125, g = 0, b = 0\<rparr>, \<lparr>r = 126, g = 0, b = 0\<rparr>, \<lparr>r = 133, g = 0, b = 0\<rparr>, \<lparr>r = 121, g = 0, b = 0\<rparr>] =
     Some \<lparr>average = \<lparr>r = 128, g = 0, b = 0\<rparr>, dominant = \<lparr>r = 127, g = 0, b = 0\<rparr>, least = \<lparr>r = 127, g = 0, b = 0\<rparr>\<rparr>"
proof -
  have c1: "clusterColors [\<lparr>r = 128, g = 0, b = 0\<rparr>] =
     [\<lparr>center = \<lparr>r = 128, g = 0, b = 0\<rparr>, count = 1\<rparr>]"
    by (simp add: clusterColors_def addColor_def)
  have a2: "fl (128 * real (1::nat)) = 128"
    using fl_Ints [of "128"] by simp
  have s2: "fl (128 + 122) = 250"
    using fl_Ints [of "250"] by simp
  have t2: "fl (250 / real ((1::nat) + 1)) = 125"
    using fl_Ints [of "125"] by simp
  have c2: "clusterColors [\<lparr>r = 128, g = 0, b = 0\<rparr>, \<lparr>r = 122, g = 0, b = 0\<rparr>] =
     [\<lparr>center = \<lparr>r = 125, g = 0, b = 0\<rparr>, count = 2\<rparr>]"
    using clusterColors_red_step [OF c1 _ movingAverage_eval [OF _ a2 s2 t2]] by simp
  have a3: "fl (125 * real (2::nat)) = 250"
    using fl_Ints [of "250"] by simp
  have s3: "fl (250 + 132) = 382"
    using fl_Ints [of "382"] by simp
  have t3: "fl (382 / real ((2::nat) + 1)) = 8960286758622549 / 70368744177664"
  proof -
    have "fl (382 / 3) = 8960286758622549 / 70368744177664"
      by (subst fl_eval [of _ 46]) (simp_all add: round_even_def)
    then show ?thesis
      by simp
  qed
  have c3: "clusterColors [\<lparr>r = 128, g = 0, b = 0\<rparr>, \<lparr>r = 122, g = 0, b = 0\<rparr>, \<lparr>r = 132, g = 0, b = 0\<rparr>] =
     [\<lparr>center = \<lparr>r = 8960286758622549 / 70368744177664, g = 0, b = 0\<rparr>, count = 3\<rparr>]"
    using clusterColors_red_step [OF c2 _ movingAverage_eval [OF _ a3 s3 t3]] by simp
  have a4: "fl (8960286758622549 / 70368744177664 * real (3::nat)) = 382"
  proof -
    have "fl (26880860275867647 / 70368744177664) = 382"
      by (subst fl_eval [of _ 44]) (simp_all add: round_even_def)
    then show ?thesis
      by simp
  qed
  have s4: "fl (382 + 133) = 515"
    using fl_Ints [of "515"] by simp
  have t4: "fl (515 / real ((3::nat) + 1)) = 515 / 4"
  proof -
    have "fl (515 / 4) = 515 / 4"
      by (subst fl_eval [of _ 45]) (simp_all add: round_even_def)
    then show ?thesis
      by simp
  qed
  have c4: "clusterColors [\<lparr>r = 128, g = 0, b = 0\<rparr>, \<lparr>r = 122, g = 0, b = 0\<rparr>, \<lparr>r = 132, g = 0, b = 0\<rparr>, \<lparr>r = 133, g = 0, b = 0\<rparr>] =
     [\<lparr>center = \<lparr>r = 515 / 4, g = 0, b = 0\<rparr>, count = 4\<rparr>]"
    using clusterColors_red_step [OF c3 _ movingAverage_eval [OF _ a4 s4 t4]] by simp
  have a5: "fl (515 / 4 * real (4::nat)) = 515"
    using fl_Ints [of "515"] by simp
  have s5: "fl (515 + 125) = 640"
    using fl_Ints [of "640"] by simp
  have t5: "fl (640 / real ((4::nat) + 1)) = 128"
    using fl_Ints [of "128"] by simp
  have c5: "clusterColors [\<lparr>r = 128, g = 0, b = 0\<rparr>, \<lparr>r = 122, g = 0, b = 0\<rparr>, \<lparr>r = 132, g = 0, b = 0\<rparr>, \<lparr>r = 133, g = 0, b = 0\<rparr>, \<lparr>r = 125, g = 0, b = 0\<rparr>] =
     [\<lparr>center = \<lparr>r = 128, g = 0, b = 0\<rparr>, count = 5\<rparr>]"
    using clusterColors_red_step [OF c4 _ movingAverage_eval [OF _ a5 s5 t5]] by simp
  have a6: "fl (128 * real (5::nat)) = 640"
    using fl_Ints [of "640"] by simp
  have s6: "fl (640 + 126) = 766"
    using fl_Ints [of "766"] by simp
  have t6: "fl (766 / real ((5::nat) + 1)) = 8983743006681771 / 70368744177664"
  proof -
    have "fl (383 / 3) = 8983743006681771 / 70368744177664"
      by (subst fl_eval [of _ 46]) (simp_all add: round_even_def)
    then show ?thesis
      by simp
  qed
  have c6: "clusterColors [\<lparr>r = 128, g = 0, b = 0\<rparr>, \<lparr>r = 122, g = 0, b = 0\<rparr>, \<lparr>r = 132, g = 0, b = 0\<rparr>, \<lparr>r = 133, g = 0, b = 0\<rparr>, \<lparr>r = 125, g = 0, b = 0\<rparr>, \<lparr>r = 126, g = 0, b = 0\<rparr>] =
     [\<lparr>center = \<lparr>r = 8983743006681771 / 70368744177664, g = 0, b = 0\<rparr>, count = 6\<rparr>]"
    using clusterColors_red_step [OF c5 _ movingAverage_eval [OF _ a6 s6 t6]] by simp
  have a7: "fl (8983743006681771 / 70368744177664 * real (6::nat)) = 766"
  proof -
    have "fl (26951229020045313 / 35184372088832) = 766"
      by (subst fl_eval [of _ 43]) (simp_all add: round_even_def)
    then show ?thesis
      by simp
  qed
  have s7: "fl (766 + 133) = 899"
    using fl_Ints [of "899"] by simp
  have t7: "fl (899 / real ((6::nat) + 1)) = 4518678643979995 / 35184372088832"
  proof -
    have "fl (899 / 7) = 4518678643979995 / 35184372088832"
      by (subst fl_eval [of _ 45]) (simp_all add: round_even_def)
    then show ?thesis
      by simp
  qed
  have c7: "clusterColors [\<lparr>r = 128, g = 0, b = 0\<rparr>, \<lparr>r = 122, g = 0, b = 0\<rparr>, \<lparr>r = 132, g = 0, b = 0\<rparr>, \<lparr>r = 133, g = 0, b = 0\<rparr>, \<lparr>r = 125, g = 0, b = 0\<rparr>, \<lparr>r = 126, g = 0, b = 0\<rparr>, \<lparr>r = 133, g = 0, b = 0\<rparr>] =
     [\<lparr>center = \<lparr>r = 4518678643979995 / 35184372088832, g = 0, b = 0\<rparr>, count = 7\<rparr>]"
    using clusterColors_red_step [OF c6 _ movingAverage_eval [OF _ a7 s7 t7]] by simp
  have a8: "fl (4518678643979995 / 35184372088832 * real (7::nat)) = 7907687626964991 / 8796093022208"
  proof -
    have "fl (31630750507859965 / 35184372088832) = 7907687626964991 / 8796093022208"
      by (subst fl_eval [of _ 43]) (simp_all add: round_even_def)
    then show ?thesis
      by simp
  qed
  have s8: "fl (7907687626964991 / 8796093022208 + 121) = 8972014882652159 / 8796093022208"
  proof -
    have "fl (8972014882652159 / 8796093022208) = 8972014882652159 / 8796093022208"
      by (subst fl_eval [of _ 43]) (simp_all add: round_even_def)
    then show ?thesis
      by simp
  qed
  have t8: "fl (8972014882652159 / 8796093022208 / real ((7::nat) + 1)) = 8972014882652159 / 70368744177664"
  proof -
    have "fl (8972014882652159 / 70368744177664) = 8972014882652159 / 70368744177664"
      by (subst fl_eval [of _ 46]) (simp_all add: round_even_def)
    then show ?thesis
      by simp
  qed
  have c8: "clusterColors [\<lparr>r = 128, g = 0, b = 0\<rparr>, \<lparr>r = 122, g = 0, b = 0\<rparr>, \<lparr>r = 132, g = 0, b = 0\<rparr>, \<lparr>r = 133, g = 0, b = 0\<rparr>, \<lparr>r = 125, g = 0, b = 0\<rparr>, \<lparr>r = 126, g = 0, b = 0\<rparr>, \<lparr>r = 133, g = 0, b = 0\<rparr>, \<lparr>r = 121, g = 0, b = 0\<rparr>] =
     [\<lparr>center = \<lparr>r = 8972014882652159 / 70368744177664, g = 0, b = 0\<rparr>, count = 8\<rparr>]"
    using clusterColors_red_step [OF c7 _ movingAverage_eval [OF _ a8 s8 t8]] by simp
  show ?thesis
    by (simp add: analyzeColors_def Let_def c8 totals_def addTotals_def sortClusters_def
        roundColor_def js_round_def)
qed

subsection \<open>The input is not written to\<close>

lemma same_below_refl: "same_below n0 h h"
  by (simp add: same_below_def)

lemma same_below_trans: "same_below n0 h h' \<Longrightarrow> same_below n0 h' h'' \<Longrightarrow> same_below n0 h h''"
  by (auto simp: same_below_def)

lemma h_absorb_frame:
  assumes "n0 \<le> center_ref cl" and "h_absorb h cl color = (cl', h')"
  shows "same_below n0 h h' \<and> length h' = length h \<and> center_ref cl' = center_ref cl"
  using assms by (auto simp: h_absorb_def Let_def same_below_def)

lemma h_scanClusters_frame:
  assumes "fresh_centers n0 h cls" and "h_scanClusters h color cls = (cls', found, h')"
  shows "same_below n0 h h' \<and> length h' = length h \<and> fresh_centers n0 h' cls'"
  using assms
proof (induction cls arbitrary: cls' found h')
  case Nil
  then show ?case by (simp add: same_below_refl)
next
  case (Cons cl rest)
  from Cons.prems(1) have cl: "n0 \<le> center_ref cl" "center_ref cl < length h"
    and rest: "fresh_centers n0 h rest"
    by (simp_all add: fresh_centers_def)
  show ?case
  proof (cases "colorDistance (h ! color) (h ! center_ref cl) < THRESHOLD")
    case True
    obtain cl1 h1 where ab: "h_absorb h cl color = (cl1, h1)"
      by (cases "h_absorb h cl color")
    with True Cons.prems(2) have eq: "cls' = cl1 # rest" "h' = h1" by simp_all
    from h_absorb_frame [OF cl(1) ab] cl rest eq show ?thesis
      by (simp add: fresh_centers_def)
  next
    case False
    obtain rest1 f1 h1 where sc: "h_scanClusters h color rest = (rest1, f1, h1)"
      by (cases "h_scanClusters h color rest")
    with False Cons.prems(2) have eq: "cls' = cl # rest1" "h' = h1" by simp_all
    from Cons.IH [OF rest sc] cl eq show ?thesis
      by (auto simp: fresh_centers_def)
  qed
qed

lemma h_addColor_frame:
  assumes "fresh_centers n0 h cls" and "n0 \<le> length h" and "h_addColor (cls, h) color = (cls', h')"
  shows "same_below n0 h h' \<and> fresh_centers n0 h' cls'"
proof -
  obtain cls1 f1 h1 where sc: "h_scanClusters h color cls = (cls1, f1, h1)"
    by (cases "h_scanClusters h color cls")
  from h_scanClusters_frame [OF assms(1) sc]
  have fr: "same_below n0 h h1" "length h1 = length h" "fresh_centers n0 h1 cls1"
    by simp_all
  show ?thesis
  proof (cases f1)
    case True
    with sc assms(3) fr show ?thesis by (simp add: h_addColor_def)
  next
    case False
    with sc assms(3) have eq: "cls' = cls1 @ [\<lparr>center_ref = length h1, hcount = 1\<rparr>]"
      "h' = h1 @ [h1 ! color]"
      by (simp_all add: h_addColor_def alloc_def)
    from fr assms(2) have "same_below n0 h (h1 @ [h1 ! color])"
      by (auto simp: same_below_def nth_append)
    moreover from fr assms(2) have "fresh_centers n0 (h1 @ [h1 ! color]) (cls1 @ [\<lparr>center_ref = length h1, hcount = 1\<rparr>])"
      by (auto simp: fresh_centers_def)
    ultimately show ?thesis using eq by simp
  qed
qed

lemma foldl_h_addColor_frame:
  assumes "fresh_centers n0 h cls" and "n0 \<le> length h"
    and "foldl h_addColor (cls, h) cols = (cls', h')"
  shows "same_below n0 h h' \<and> fresh_centers n0 h' cls'"
  using assms
proof (induction cols arbitrary: cls h)
  case Nil
  then show ?case by (simp add: same_below_refl)
next
  case (Cons c cols)
  obtain cls1 h1 where st: "h_addColor (cls, h) c = (cls1, h1)"
    by (cases "h_addColor (cls, h) c")
  from h_addColor_frame [OF Cons.prems(1,2) st]
  have fr: "same_below n0 h h1" "fresh_centers n0 h1 cls1" by simp_all
  then have len: "n0 \<le> length h1"
    using Cons.prems(2) by (simp add: same_below_def)
  from Cons.prems(3) st have "foldl h_addColor (cls1, h1) cols = (cls', h')" by simp
  from Cons.IH [OF fr(2) len this] fr(1) show ?case
    by (auto intro: same_below_trans)
qed

text \<open>
  Claim C10. \<open>analyzeColors\<close> never mutates its input: when every entry of the input array
  refers to a colour object of the store, every one of these objects has after the call the
  \<open>r\<close>, \<open>g\<close>, \<open>b\<close> it had before, and so has every other object that existed before the
  call. The centres that are written to are the copies allocated during the call.
\<close>

theorem analyzeColors_input_unchanged:
  assumes "\<forall>a\<in>set cols. a < length h" and "h_analyzeColors h cols = (res, h')"
  shows "map (\<lambda>a. h' ! a) cols = map (\<lambda>a. h ! a) cols \<and> (\<forall>a<length h. h' ! a = h ! a)"
proof -
  have "same_below (length h) h h'"
  proof (cases "cols = []")
    case True
    with assms(2) show ?thesis by (simp add: h_analyzeColors_def same_below_refl)
  next
    case False
    obtain cls1 h1 where cl: "h_clusterColors h cols = (cls1, h1)"
      by (cases "h_clusterColors h cols")
    with False assms(2) have "h' = h1"
      by (simp add: h_analyzeColors_def Let_def split: prod.splits)
    moreover have "same_below (length h) h h1"
      using foldl_h_addColor_frame [of "length h" h "[]" cols cls1 h1] cl
      by (simp add: h_clusterColors_def fresh_centers_def)
    ultimately show ?thesis by simp
  qed
  with assms(1) show ?thesis by (simp add: same_below_def)
qed

text \<open>
  The witness is a run on an input with two references to the same object. The centre of
  the first cluster ends as the doubles nearest to \<open>40 / 3\<close>, \<open>70 / 3\<close> and \<open>100 / 3\<close>.
\<close>

lemma fl_thirds:
  shows "fl (40 / 3) = 7505999378950827 / 2 ^ 49"
    and "fl (70 / 3) = 6567749456581973 / 2 ^ 48"
    and "fl (100 / 3) = 4691249611844267 / 2 ^ 47"
proof -
  show "fl (40 / 3) = 7505999378950827 / 2 ^ 49"
    by (subst fl_eval [of _ 49]) (simp_all add: round_even_def)
  show "fl (70 / 3) = 6567749456581973 / 2 ^ 48"
    by (subst fl_eval [of _ 48]) (simp_all add: round_even_def)
  show "fl (100 / 3) = 4691249611844267 / 2 ^ 47"
    by (subst fl_eval [of _ 47]) (simp_all add: round_even_def)
qed

theorem analyzeColors_input_unchanged_witness:
  "h_analyzeColors [\<lparr>r = 10, g = 20, b = 30\<rparr>, \<lparr>r = 20, g = 30, b = 40\<rparr>, \<lparr>r = 200, g = 0, b = 0\<rparr>] [0, 1, 0, 2] =
     (Some \<lparr>average = \<lparr>r = 60, g = 18, b = 25\<rparr>, dominant = \<lparr>r = 13, g = 23, b = 33\<rparr>,
            least = \<lparr>r = 200, g = 0, b = 0\<rparr>\<rparr>,
      [\<lparr>r = 10, g = 20, b = 30\<rparr>, \<lparr>r = 20, g = 30, b = 40\<rparr>, \<lparr>r = 200, g = 0, b = 0\<rparr>] @ [\<lparr>r = 7505999378950827 / 2 ^ 49, g = 6567749456581973 / 2 ^ 48, b = 4691249611844267 / 2 ^ 47\<rparr>, \<lparr>r = 200, g = 0, b = 0\<rparr>]) \<and>
   map (\<lambda>a. ([\<lparr>r = 10, g = 20, b = 30\<rparr>, \<lparr>r = 20, g = 30, b = 40\<rparr>, \<lparr>r = 200, g = 0, b = 0\<rparr>] @ [\<lparr>r = 7505999378950827 / 2 ^ 49, g = 6567749456581973 / 2 ^ 48, b = 4691249611844267 / 2 ^ 47\<rparr>, \<lparr>r = 200, g = 0, b = 0\<rparr>]) ! a) [0, 1, 0, 2] =
     map (\<lambda>a. [\<lparr>r = 10, g = 20, b = 30\<rparr>, \<lparr>r = 20, g = 30, b = 40\<rparr>, \<lparr>r = 200, g = 0, b = 0\<rparr>] ! a) [0, 1, 0, 2]"
proof -
  let ?h = "[\<lparr>r = 10, g = 20, b = 30\<rparr>, \<lparr>r = 20, g = 30, b = 40\<rparr>, \<lparr>r = 200, g = 0, b = 0\<rparr>]"
  let ?h' = "?h @ [\<lparr>r = 7505999378950827 / 2 ^ 49, g = 6567749456581973 / 2 ^ 48, b = 4691249611844267 / 2 ^ 47\<rparr>, \<lparr>r = 200, g = 0, b = 0\<rparr>]"
  have valid: "\<forall>a\<in>set [0, 1, 0, 2]. a < length ?h" by simp
  have far: "\<not> colorDistance \<lparr>r = 200, g = 0, b = 0\<rparr> \<lparr>r = 7505999378950827 / 2 ^ 49, g = 6567749456581973 / 2 ^ 48, b = 4691249611844267 / 2 ^ 47\<rparr> < THRESHOLD"
    by (rule colorDistance_far) simp
  have run: "h_analyzeColors ?h [0, 1, 0, 2] =
     (Some \<lparr>average = \<lparr>r = 60, g = 18, b = 25\<rparr>, dominant = \<lparr>r = 13, g = 23, b = 33\<rparr>,
            least = \<lparr>r = 200, g = 0, b = 0\<rparr>\<rparr>, ?h')"
    using far
    by (simp add: h_analyzeColors_def h_clusterColors_def h_addColor_def h_absorb_def alloc_def
        colorDistance_less_iff color8_def channel8_def movingAverage_def fsub_def fmul_def
        fadd_def fdiv_def fl_Ints fl_thirds totals_def addTotals_def js_round_def Let_def
        h_sortClusters_def roundColor_def)
  from analyzeColors_input_unchanged [OF valid run] run show ?thesis
    by blast
qed

subsection \<open>The store model computes what the value model computes\<close>

text \<open>
  Read back through \<open>abs_clusters\<close>, the clusters of the store model are those of the value
  model on the colours the references point to: the centres are distinct objects, allocated
  by the call, so a write to one of them changes neither another centre nor an input colour.
\<close>

lemma h_absorb_sim:
  assumes "color \<noteq> center_ref cl" and "center_ref cl < length h"
    and "h_absorb h cl color = (cl', h')"
  shows "\<lparr>center = h' ! center_ref cl', count = hcount cl'\<rparr> =
           absorb \<lparr>center = h ! center_ref cl, count = hcount cl\<rparr> (h ! color)
       \<and> (\<forall>a. a \<noteq> center_ref cl \<longrightarrow> h' ! a = h ! a)"
  using assms by (auto simp: h_absorb_def absorb_def Let_def)

lemma abs_clusters_cong:
  assumes "\<forall>cl\<in>set cls. h' ! center_ref cl = h ! center_ref cl"
  shows "abs_clusters h' cls = abs_clusters h cls"
  using assms by (simp add: abs_clusters_def)

lemma h_scanClusters_sim:
  assumes "fresh_centers n0 h cls" and "distinct (map center_ref cls)" and "color < n0"
    and "h_scanClusters h color cls = (cls', found, h')"
  shows "scanClusters (h ! color) (abs_clusters h cls) = (abs_clusters h' cls', found)
       \<and> map center_ref cls' = map center_ref cls
       \<and> (\<forall>a. a \<notin> center_ref ` set cls \<longrightarrow> h' ! a = h ! a)"
  using assms
proof (induction cls arbitrary: cls' found h')
  case Nil
  then show ?case by (simp add: abs_clusters_def)
next
  case (Cons cl rest)
  from Cons.prems(1) have cl: "n0 \<le> center_ref cl" "center_ref cl < length h"
    and rest: "fresh_centers n0 h rest"
    by (simp_all add: fresh_centers_def)
  from Cons.prems(2) have dist: "distinct (map center_ref rest)"
    and notin_img: "center_ref cl \<notin> center_ref ` set rest"
    by simp_all
  from notin_img have notin: "\<forall>k\<in>set rest. center_ref k \<noteq> center_ref cl"
    by (metis imageI)
  show ?case
  proof (cases "colorDistance (h ! color) (h ! center_ref cl) < THRESHOLD")
    case True
    obtain cl1 h1 where ab: "h_absorb h cl color = (cl1, h1)"
      by (cases "h_absorb h cl color")
    with True Cons.prems(4) have eq: "cls' = cl1 # rest" "h' = h1" "found" by simp_all
    from cl Cons.prems(3) have ne: "color \<noteq> center_ref cl" by simp
    from h_absorb_sim [OF ne cl(2) ab]
    have step: "\<lparr>center = h1 ! center_ref cl1, count = hcount cl1\<rparr> =
        absorb \<lparr>center = h ! center_ref cl, count = hcount cl\<rparr> (h ! color)"
      and others: "\<forall>a. a \<noteq> center_ref cl \<longrightarrow> h1 ! a = h ! a"
      by simp_all
    from others notin have "abs_clusters h1 rest = abs_clusters h rest"
      by (intro abs_clusters_cong) simp
    moreover from ab have "center_ref cl1 = center_ref cl"
      by (auto simp: h_absorb_def Let_def)
    ultimately show ?thesis
      using True eq step others by (simp add: abs_clusters_def)
  next
    case False
    obtain rest1 f1 h1 where sc: "h_scanClusters h color rest = (rest1, f1, h1)"
      by (cases "h_scanClusters h color rest")
    with False Cons.prems(4) have eq: "cls' = cl # rest1" "h' = h1" "found = f1" by simp_all
    from Cons.IH [OF rest dist Cons.prems(3) sc]
    have IH: "scanClusters (h ! color) (abs_clusters h rest) = (abs_clusters h1 rest1, f1)"
      "map center_ref rest1 = map center_ref rest"
      "\<forall>a. a \<notin> center_ref ` set rest \<longrightarrow> h1 ! a = h ! a"
      by simp_all
    from notin_img IH(3) have "h1 ! center_ref cl = h ! center_ref cl"
      by simp
    with False IH eq show ?thesis
      by (simp add: abs_clusters_def)
  qed
qed

lemma insort_key_map:
  "map f (insort_key (\<lambda>x. k (f x)) x xs) = insort_key k (f x) (map f xs)"
  by (induction xs) simp_all

lemma sort_key_map: "map f (sort_key (\<lambda>x. k (f x)) xs) = sort_key k (map f xs)"
  by (induction xs) (simp_all add: insort_key_map)

lemma abs_clusters_sort: "abs_clusters h (h_sortClusters cls) = sortClusters (abs_clusters h cls)"
  using sort_key_map [of "\<lambda>cl. \<lparr>center = h ! center_ref cl, count = hcount cl\<rparr>" "\<lambda>cl. - int (count cl)" cls]
  by (simp add: abs_clusters_def h_sortClusters_def sortClusters_def)

lemma h_addColor_sim:
  assumes "fresh_centers n0 h cls" and "distinct (map center_ref cls)" and "n0 \<le> length h"
    and "color < n0" and "h_addColor (cls, h) color = (cls', h')"
  shows "abs_clusters h' cls' = addColor (abs_clusters h cls) (h ! color)
       \<and> distinct (map center_ref cls')"
proof -
  obtain cls1 f1 h1 where sc: "h_scanClusters h color cls = (cls1, f1, h1)"
    by (cases "h_scanClusters h color cls")
  from h_scanClusters_frame [OF assms(1) sc]
  have fr: "same_below n0 h h1" "length h1 = length h" "fresh_centers n0 h1 cls1"
    by simp_all
  from h_scanClusters_sim [OF assms(1,2,4) sc]
  have sim: "scanClusters (h ! color) (abs_clusters h cls) = (abs_clusters h1 cls1, f1)"
    "map center_ref cls1 = map center_ref cls"
    by simp_all
  show ?thesis
  proof (cases f1)
    case True
    with sc assms(5) have "cls' = cls1" "h' = h1" by (simp_all add: h_addColor_def)
    with True sim assms(2) show ?thesis by (simp add: addColor_def)
  next
    case False
    with sc assms(5) have eq: "cls' = cls1 @ [\<lparr>center_ref = length h1, hcount = 1\<rparr>]"
      "h' = h1 @ [h1 ! color]"
      by (simp_all add: h_addColor_def alloc_def)
    from fr(3) have below: "\<forall>cl\<in>set cls1. center_ref cl < length h1"
      by (simp add: fresh_centers_def)
    then have a1: "abs_clusters (h1 @ [h1 ! color]) cls1 = abs_clusters h1 cls1"
      by (intro abs_clusters_cong) (simp add: nth_append)
    from fr(1) assms(4) have a2: "h1 ! color = h ! color"
      by (simp add: same_below_def)
    from below have "length h1 \<notin> set (map center_ref cls1)"
      by auto
    moreover from sim(2) assms(2) have "distinct (map center_ref cls1)"
      by simp
    ultimately have a3: "distinct (map center_ref (cls1 @ [\<lparr>center_ref = length h1, hcount = 1\<rparr>]))"
      by simp
    from a1 a2 a3 show ?thesis
      using False sim(1) eq by (simp add: addColor_def abs_clusters_def)
  qed
qed

lemma foldl_h_addColor_sim:
  assumes "fresh_centers n0 h cls" and "distinct (map center_ref cls)" and "n0 \<le> length h"
    and "\<forall>a\<in>set cols. a < n0" and "foldl h_addColor (cls, h) cols = (cls', h')"
  shows "abs_clusters h' cls' = foldl addColor (abs_clusters h cls) (map (\<lambda>a. h ! a) cols)"
  using assms
proof (induction cols arbitrary: cls h)
  case Nil
  then show ?case by simp
next
  case (Cons c cols)
  obtain cls1 h1 where st: "h_addColor (cls, h) c = (cls1, h1)"
    by (cases "h_addColor (cls, h) c")
  from Cons.prems(4) have c: "c < n0" and cs: "\<forall>a\<in>set cols. a < n0" by simp_all
  from h_addColor_frame [OF Cons.prems(1,3) st]
  have fr: "same_below n0 h h1" "fresh_centers n0 h1 cls1" by simp_all
  then have len: "n0 \<le> length h1"
    using Cons.prems(3) by (simp add: same_below_def)
  from h_addColor_sim [OF Cons.prems(1,2,3) c st]
  have sim: "abs_clusters h1 cls1 = addColor (abs_clusters h cls) (h ! c)"
    "distinct (map center_ref cls1)" by simp_all
  from Cons.prems(5) st have "foldl h_addColor (cls1, h1) cols = (cls', h')" by simp
  from Cons.IH [OF fr(2) sim(2) len cs this]
  have "abs_clusters h' cls' = foldl addColor (abs_clusters h1 cls1) (map (\<lambda>a. h1 ! a) cols)" .
  moreover from fr(1) cs have "map (\<lambda>a. h1 ! a) cols = map (\<lambda>a. h ! a) cols"
    by (simp add: same_below_def)
  ultimately show ?case using sim(1) by simp
qed

lemma h_clusterColors_sim:
  assumes "\<forall>a\<in>set cols. a < length h" and "h_clusterColors h cols = (cls', h')"
  shows "abs_clusters h' cls' = clusterColors (map (\<lambda>a. h ! a) cols)"
  using foldl_h_addColor_sim [of "length h" h "[]" cols cls' h'] assms
  by (simp add: h_clusterColors_def clusterColors_def fresh_centers_def abs_clusters_def)

lemma abs_clusters_hd: "cls \<noteq> [] \<Longrightarrow> h ! center_ref (hd cls) = center (hd (abs_clusters h cls))"
  by (cases cls) (simp_all add: abs_clusters_def)

lemma abs_clusters_last: "cls \<noteq> [] \<Longrightarrow> h ! center_ref (last cls) = center (last (abs_clusters h cls))"
  by (simp add: abs_clusters_def last_map)

lemma h_analyzeColors_refines:
  assumes "\<forall>a\<in>set cols. a < length h"
  shows "fst (h_analyzeColors h cols) = analyzeColors (map (\<lambda>a. h ! a) cols)"
proof (cases "cols = []")
  case True
  then show ?thesis by (simp add: h_analyzeColors_def analyzeColors_def)
next
  case False
  obtain cls1 h1 where cl: "h_clusterColors h cols = (cls1, h1)"
    by (cases "h_clusterColors h cols")
  from h_clusterColors_sim [OF assms cl]
  have sim: "abs_clusters h1 cls1 = clusterColors (map (\<lambda>a. h ! a) cols)" .
  with False have "abs_clusters h1 cls1 \<noteq> []"
    by (simp add: clusterColors_not_Nil)
  then have "cls1 \<noteq> []" by (auto simp: abs_clusters_def)
  then have ne: "h_sortClusters cls1 \<noteq> []"
    by (metis h_sortClusters_def length_sort length_0_conv)
  have "abs_clusters h1 (h_sortClusters cls1) = sortClusters (clusterColors (map (\<lambda>a. h ! a) cols))"
    by (simp add: abs_clusters_sort sim)
  with abs_clusters_hd [OF ne, of h1] abs_clusters_last [OF ne, of h1]
  have "h1 ! center_ref (hd (h_sortClusters cls1)) = center (hd (sortClusters (clusterColors (map (\<lambda>a. h ! a) cols))))"
    "h1 ! center_ref (last (h_sortClusters cls1)) = center (last (sortClusters (clusterColors (map (\<lambda>a. h ! a) cols))))"
    by simp_all
  with False cl show ?thesis
    by (simp add: h_analyzeColors_def analyzeColors_def Let_def split: prod.splits)
qed

section \<open>The sampling pipeline: lemmas and claims\<close>

subsection \<open>The native loop in closed form\<close>

lemma processFrame_done:
  "FRAME_COUNT \<le> currentFrame j \<Longrightarrow>
     processFrame env d j = (Resolved (colors j), trace j @ [RevokeURL])"
  by (simp add: processFrame.simps)

lemma processFrame_error:
  "currentFrame j < FRAME_COUNT \<Longrightarrow> seek env (currentFrame j) = SeekError \<Longrightarrow>
     processFrame env d j =
       (Rejected ''Format not supported'', trace j @ [SeekTo (seekTime d (currentFrame j)), RevokeURL])"
  by (subst processFrame.simps) (simp add: Let_def)

lemma processFrame_draw_throws:
  "currentFrame j < FRAME_COUNT \<Longrightarrow> seek env (currentFrame j) = SeekedDrawThrows \<Longrightarrow>
     processFrame env d j = (Pending, trace j @ [SeekTo (seekTime d (currentFrame j))])"
  by (subst processFrame.simps) (simp add: Let_def)

lemma processFrame_seeked:
  "currentFrame j < FRAME_COUNT \<Longrightarrow> seek env (currentFrame j) = Seeked cap \<Longrightarrow>
     processFrame env d j =
       processFrame env d
         \<lparr>colors = colors j @ [frameColor env (currentFrame j)],
          currentFrame = currentFrame j + 1,
          trace = trace j @ roundEffects d (currentFrame j)\<rparr>"
  by (subst processFrame.simps) (simp add: Let_def frameColor_def roundEffects_def split: option.splits)

lemma processFrame_resolves:
  assumes "\<forall>i. currentFrame j \<le> i \<and> i < FRAME_COUNT \<longrightarrow> (\<exists>cap. seek env i = Seeked cap)"
    and "currentFrame j \<le> FRAME_COUNT"
  shows "processFrame env d j =
     (Resolved (colors j @ map (frameColor env) [currentFrame j..<FRAME_COUNT]),
      trace j @ concat (map (roundEffects d) [currentFrame j..<FRAME_COUNT]) @ [RevokeURL])"
  using assms
proof (induction "FRAME_COUNT - currentFrame j" arbitrary: j)
  case 0
  then have "currentFrame j = FRAME_COUNT" by simp
  then show ?case by (simp add: processFrame_done)
next
  case (Suc m)
  then have lt: "currentFrame j < FRAME_COUNT" by simp
  with Suc.prems(1) obtain cap where sk: "seek env (currentFrame j) = Seeked cap"
    by auto
  let ?j' = "\<lparr>colors = colors j @ [frameColor env (currentFrame j)],
          currentFrame = currentFrame j + 1,
          trace = trace j @ roundEffects d (currentFrame j)\<rparr>"
  have "processFrame env d ?j' =
     (Resolved (colors ?j' @ map (frameColor env) [currentFrame ?j'..<FRAME_COUNT]),
      trace ?j' @ concat (map (roundEffects d) [currentFrame ?j'..<FRAME_COUNT]) @ [RevokeURL])"
    using Suc.hyps(2) Suc.prems lt by (intro Suc.hyps(1)) auto
  then show ?case
    using lt by (simp add: processFrame_seeked [OF lt sk] upt_conv_Cons)
qed

text \<open>The loop up to the first seek that is not answered by a \<open>seeked\<close> event whose frame is drawn.\<close>

lemma processFrame_stops:
  assumes "currentFrame j \<le> k" and "k < FRAME_COUNT"
    and "\<forall>i. currentFrame j \<le> i \<and> i < k \<longrightarrow> (\<exists>cap. seek env i = Seeked cap)"
  shows "processFrame env d j =
     processFrame env d
       \<lparr>colors = colors j @ map (frameColor env) [currentFrame j..<k],
        currentFrame = k,
        trace = trace j @ concat (map (roundEffects d) [currentFrame j..<k])\<rparr>"
  using assms
proof (induction "k - currentFrame j" arbitrary: j)
  case 0
  then have "currentFrame j = k" by simp
  then show ?case by (cases j) simp
next
  case (Suc m)
  then have lt: "currentFrame j < k" by simp
  with Suc.prems have lt': "currentFrame j < FRAME_COUNT" by simp
  from lt Suc.prems(3) obtain cap where sk: "seek env (currentFrame j) = Seeked cap"
    by auto
  let ?j' = "\<lparr>colors = colors j @ [frameColor env (currentFrame j)],
          currentFrame = currentFrame j + 1,
          trace = trace j @ roundEffects d (currentFrame j)\<rparr>"
  have "processFrame env d ?j' =
     processFrame env d
       \<lparr>colors = colors ?j' @ map (frameColor env) [currentFrame ?j'..<k],
        currentFrame = k,
        trace = trace ?j' @ concat (map (roundEffects d) [currentFrame ?j'..<k])\<rparr>"
    using Suc.hyps(2) Suc.prems lt by (intro Suc.hyps(1)) auto
  then show ?case
    using lt by (simp add: processFrame_seeked [OF lt' sk] upt_conv_Cons)
qed

lemma processFrame_rejects:
  assumes "currentFrame j \<le> k" and "k < FRAME_COUNT" and "seek env k = SeekError"
    and "\<forall>i. currentFrame j \<le> i \<and> i < k \<longrightarrow> (\<exists>cap. seek env i = Seeked cap)"
  shows "processFrame env d j =
     (Rejected ''Format not supported'',
      trace j @ concat (map (roundEffects d) [currentFrame j..<k]) @ [SeekTo (seekTime d k), RevokeURL])"
  using assms(2,3) by (simp add: processFrame_stops [OF assms(1,2,4)] processFrame_error)

lemma processFrame_hangs:
  assumes "currentFrame j \<le> k" and "k < FRAME_COUNT" and "seek env k = SeekedDrawThrows"
    and "\<forall>i. currentFrame j \<le> i \<and> i < k \<longrightarrow> (\<exists>cap. seek env i = Seeked cap)"
  shows "processFrame env d j =
     (Pending, trace j @ concat (map (roundEffects d) [currentFrame j..<k]) @ [SeekTo (seekTime d k)])"
  using assms(2,3) by (simp add: processFrame_stops [OF assms(1,2,4)] processFrame_draw_throws)

subsection \<open>Progress values of the native path\<close>

lemma progressValues_append [simp]: "progressValues (xs @ ys) = progressValues xs @ progressValues ys"
  by (simp add: progressValues_def)

lemma progressValues_Nil [simp]: "progressValues [] = []"
  by (simp add: progressValues_def)

lemma progressValues_Cons:
  "progressValues (e # es) = (case e of Progress p \<Rightarrow> [p] | _ \<Rightarrow> []) @ progressValues es"
  by (simp add: progressValues_def)

lemma seekTimes_append [simp]: "seekTimes (xs @ ys) = seekTimes xs @ seekTimes ys"
  by (simp add: seekTimes_def)

lemma progressValues_rounds:
  "progressValues (concat (map (roundEffects d) [a..<n])) = map (\<lambda>i. nativeProgress (i + 1)) [a..<n]"
  by (induction n) (simp_all add: roundEffects_def progressValues_Cons)

lemma js_round_mono: "x \<le> y \<Longrightarrow> js_round x \<le> js_round y"
  by (simp add: js_round_def floor_mono)


lemma sorted_map_upt:
  fixes f :: "nat \<Rightarrow> int"
  assumes "\<And>m n. m \<le> n \<Longrightarrow> f m \<le> f n"
  shows "sorted (map f [a..<n])"
  by (simp add: sorted_iff_nth_mono assms)






text \<open>
  Where rounding shows: \<open>138 / 240\<close> is not a double, the product of its double with 100
  is the double just below 57.5, and the value reported for sample 138 is 57, although
  \<open>138 / 240 * 100 = 57.5\<close> in the reals.
\<close>

lemma nativeProgress_138: "nativeProgress 138 = 57"
proof -
  have q: "fdiv (real 138) (real FRAME_COUNT) = 5179139571476070 / 2 ^ 53"
    unfolding fdiv_def FRAME_COUNT_def
    by (subst fl_eval [of _ 53]) (simp_all add: round_even_def)
  have p: "fmul (5179139571476070 / 2 ^ 53) 100 = 8092405580431359 / 2 ^ 47"
    unfolding fmul_def
    by (subst fl_eval [of _ 47]) (simp_all add: round_even_def)
  show ?thesis
    unfolding nativeProgress_def q p by (simp add: js_round_def)
qed


subsection \<open>Progress values of the fallback path\<close>

lemma fallbackProgress_mono: "m \<le> n \<Longrightarrow> fallbackProgress m \<le> fallbackProgress n"
  unfolding fallbackProgress_def fadd_def fmul_def fdiv_def
  by (intro js_round_mono fl_monotone add_left_mono mult_right_mono)
     (simp_all add: FRAME_COUNT_def divide_right_mono)

lemma fallbackProgress_between:
  assumes "lo \<le> real n / real FRAME_COUNT" and "real n / real FRAME_COUNT \<le> hi"
    and "fl lo = lo" and "fl hi = hi"
    and "fl (lo * 80) = lo * 80" and "fl (hi * 80) = hi * 80"
    and "fl (10 + lo * 80) = 10 + lo * 80" and "fl (10 + hi * 80) = 10 + hi * 80"
  shows "js_round (10 + lo * 80) \<le> fallbackProgress n"
    and "fallbackProgress n \<le> js_round (10 + hi * 80)"
proof -
  let ?q = "fdiv (real n) (real FRAME_COUNT)"
  have "lo \<le> ?q" and "?q \<le> hi"
    unfolding fdiv_def using assms(1-4) by (auto intro: fl_ge fl_le)
  then have "lo * 80 \<le> ?q * 80" and "?q * 80 \<le> hi * 80"
    by simp_all
  then have "lo * 80 \<le> fmul ?q 80" and "fmul ?q 80 \<le> hi * 80"
    unfolding fmul_def using assms(5,6) by (auto intro: fl_ge fl_le)
  then have "10 + lo * 80 \<le> 10 + fmul ?q 80" and "10 + fmul ?q 80 \<le> 10 + hi * 80"
    by simp_all
  then have "10 + lo * 80 \<le> fadd 10 (fmul ?q 80)" and "fadd 10 (fmul ?q 80) \<le> 10 + hi * 80"
    unfolding fadd_def using assms(7,8) by (auto intro: fl_ge fl_le)
  then show "js_round (10 + lo * 80) \<le> fallbackProgress n"
    and "fallbackProgress n \<le> js_round (10 + hi * 80)"
    unfolding fallbackProgress_def by (auto intro: js_round_mono)
qed

lemma fl_10: "fl 10 = 10"
  by (rule fl_Ints) simp_all

lemma fallbackProgress_0: "fallbackProgress 0 = 10"
  by (simp add: fallbackProgress_def fadd_def fmul_def fdiv_def fl_10 js_round_def)

lemma fallbackProgress_250: "fallbackProgress 250 \<le> 93"
proof -
  have "fallbackProgress 250 \<le> js_round (10 + 1067 / 1024 * 80)"
  proof (rule fallbackProgress_between(2) [of 0])
    show "fl (1067 / 1024) = 1067 / 1024"
      using fl_dyadic [of 1067 10] by simp
    show "fl (1067 / 1024 * 80) = 1067 / 1024 * 80"
      using fl_dyadic [of 5335 6] by simp
    show "fl (10 + 1067 / 1024 * 80) = 10 + 1067 / 1024 * 80"
      using fl_dyadic [of 5975 6] by simp
  qed (simp_all add: FRAME_COUNT_def fl_10)
  then show ?thesis
    by (simp add: js_round_def)
qed

lemma fallbackProgress_first: "fallbackProgress 1 = 10" "fallbackProgress 2 = 11"
proof -
  have d: "fl (5 / 1024) = 5 / 1024" "fl (1 / 128) = 1 / 128" "fl (5 / 512) = 5 / 512"
    using fl_dyadic [of 5 10] fl_dyadic [of 1 7] fl_dyadic [of 5 9] by simp_all
  have e: "fl (25 / 64) = 25 / 64" "fl (5 / 8) = 5 / 8" "fl (25 / 32) = 25 / 32"
    using fl_dyadic [of 25 6] fl_dyadic [of 5 3] fl_dyadic [of 25 5] by simp_all
  have s: "fl (665 / 64) = 665 / 64" "fl (85 / 8) = 85 / 8" "fl (345 / 32) = 345 / 32"
    using fl_dyadic [of 665 6] fl_dyadic [of 85 3] fl_dyadic [of 345 5] by simp_all
  have "js_round (10 + 0 * 80) \<le> fallbackProgress 1"
    and "fallbackProgress 1 \<le> js_round (10 + 5 / 1024 * 80)"
    by (rule fallbackProgress_between [of 0 _ "5 / 1024"]; simp add: d e s fl_10 FRAME_COUNT_def)+
  then show "fallbackProgress 1 = 10"
    by (simp add: js_round_def)
  have "js_round (10 + 1 / 128 * 80) \<le> fallbackProgress 2"
    and "fallbackProgress 2 \<le> js_round (10 + 5 / 512 * 80)"
    by (rule fallbackProgress_between [of "1 / 128" _ "5 / 512"]; simp add: d e s fl_10 FRAME_COUNT_def)+
  then show "fallbackProgress 2 = 11"
    by (simp add: js_round_def)
qed

lemma fallbackProgress_ge: "10 \<le> fallbackProgress i"
proof -
  have "fallbackProgress 0 \<le> fallbackProgress i"
    by (rule fallbackProgress_mono) simp
  then show ?thesis
    by (simp add: fallbackProgress_0)
qed

lemma fallbackProgress_le:
  assumes "i \<le> FRAME_COUNT + 10"
  shows "fallbackProgress i \<le> 93"
proof -
  from assms have "fallbackProgress i \<le> fallbackProgress 250"
    by (intro fallbackProgress_mono) (simp add: FRAME_COUNT_def)
  then show ?thesis
    using fallbackProgress_250 by simp
qed

subsection \<open>The read loop of the fallback\<close>

lemma readFrames_over: "FRAME_COUNT + 10 < i \<Longrightarrow> readFrames env cs tr i = (cs, tr)"
  by (simp add: readFrames.simps)

lemma readFrames_fail:
  assumes "i \<le> FRAME_COUNT + 10" and "\<forall>c del. read_frame env (frameFileName i) \<noteq> Captured c del"
  shows "readFrames env cs tr i = (cs, tr @ [ReadFile (frameFileName i)])"
  using assms by (subst readFrames.simps) (simp add: Let_def split: frame_read.splits)

lemma readFrames_undeleted:
  assumes "i \<le> FRAME_COUNT + 10" and "read_frame env (frameFileName i) = Captured c False"
  shows "readFrames env cs tr i =
     (cs @ [c], tr @ [ReadFile (frameFileName i), DeleteFile (frameFileName i)])"
  using assms by (subst readFrames.simps) (simp add: Let_def)

lemma readFrames_step:
  assumes "i \<le> FRAME_COUNT + 10" and "read_frame env (frameFileName i) = Captured c True"
  shows "readFrames env cs tr i =
     readFrames env (cs @ [c])
       (tr @ [ReadFile (frameFileName i), DeleteFile (frameFileName i), Progress (fallbackProgress i)])
       (i + 1)"
  using assms by (subst readFrames.simps) (simp add: Let_def)

lemma readFrames_props:
  assumes "readFrames env cs tr i = (cs', tr')"
  shows "\<exists>new m. cs' = cs @ new \<and>
     progressValues tr' = progressValues tr @ map fallbackProgress [i..<i + m] \<and>
     m \<le> length new \<and> length new \<le> FRAME_COUNT + 11 - i \<and>
     (\<forall>n<length new. \<exists>del. read_frame env (frameFileName (i + n)) = Captured (new ! n) del) \<and>
     (\<forall>k. i \<le> k \<and> k \<le> FRAME_COUNT + 10 \<and>
          (\<forall>c del. read_frame env (frameFileName k) \<noteq> Captured c del) \<longrightarrow> length new \<le> k - i)"
  using assms
proof (induction "FRAME_COUNT + 11 - i" arbitrary: i cs tr)
  case 0
  then have "FRAME_COUNT + 10 < i" by simp
  with 0 have "cs' = cs" "tr' = tr" by (simp_all add: readFrames_over)
  then show ?case
    by (intro exI [of _ "[]"] exI [of _ "0::nat"]) simp
next
  case (Suc x)
  then have le: "i \<le> FRAME_COUNT + 10" by simp
  show ?case
  proof (cases "\<exists>c del. read_frame env (frameFileName i) = Captured c del")
    case False
    then have nc: "\<forall>c del. read_frame env (frameFileName i) \<noteq> Captured c del" by simp
    from Suc.prems readFrames_fail [OF le nc]
    have "cs' = cs" "tr' = tr @ [ReadFile (frameFileName i)]" by simp_all
    then show ?thesis
      by (intro exI [of _ "[]"] exI [of _ "0::nat"]) (simp add: progressValues_Cons)
  next
    case True
    then obtain c del where Captured: "read_frame env (frameFileName i) = Captured c del"
      by blast
    show ?thesis
    proof (cases del)
      case True
      let ?tr1 = "tr @ [ReadFile (frameFileName i), DeleteFile (frameFileName i), Progress (fallbackProgress i)]"
      from Captured True have rf: "read_frame env (frameFileName i) = Captured c True" by simp
      from Suc.prems readFrames_step [OF le rf]
      have "readFrames env (cs @ [c]) ?tr1 (i + 1) = (cs', tr')" by simp
      moreover from Suc.hyps(2) have "x = FRAME_COUNT + 11 - (i + 1)" by simp
      ultimately obtain new m where IH: "cs' = (cs @ [c]) @ new"
        "progressValues tr' = progressValues ?tr1 @ map fallbackProgress [i + 1..<i + 1 + m]"
        "m \<le> length new" "length new \<le> FRAME_COUNT + 11 - (i + 1)"
        "\<forall>n<length new. \<exists>del. read_frame env (frameFileName (i + 1 + n)) = Captured (new ! n) del"
        "\<forall>k. i + 1 \<le> k \<and> k \<le> FRAME_COUNT + 10 \<and>
          (\<forall>c del. read_frame env (frameFileName k) \<noteq> Captured c del) \<longrightarrow> length new \<le> k - (i + 1)"
        using Suc.hyps(1) by blast
      have p1: "cs' = cs @ (c # new)" using IH(1) by simp
      have u: "[i..<i + (m + 1)] = i # [i + 1..<i + 1 + m]"
        using upt_conv_Cons [of i "i + (m + 1)"] by (simp del: upt_Suc)
      have p2: "progressValues tr' = progressValues tr @ map fallbackProgress [i..<i + (m + 1)]"
        unfolding u using IH(2) by (simp add: progressValues_Cons del: upt_Suc)
      have p3: "m + 1 \<le> length (c # new)" using IH(3) by simp
      have p4: "length (c # new) \<le> FRAME_COUNT + 11 - i" using IH(4) le by simp
      have p5: "\<forall>n<length (c # new). \<exists>del. read_frame env (frameFileName (i + n)) = Captured ((c # new) ! n) del"
      proof (intro allI impI)
        fix n assume "n < length (c # new)"
        then show "\<exists>del. read_frame env (frameFileName (i + n)) = Captured ((c # new) ! n) del"
          using rf IH(5) by (cases n) auto
      qed
      have p6: "\<forall>k. i \<le> k \<and> k \<le> FRAME_COUNT + 10 \<and>
          (\<forall>c del. read_frame env (frameFileName k) \<noteq> Captured c del) \<longrightarrow> length (c # new) \<le> k - i"
      proof (intro allI impI)
        fix k assume k: "i \<le> k \<and> k \<le> FRAME_COUNT + 10 \<and>
          (\<forall>c del. read_frame env (frameFileName k) \<noteq> Captured c del)"
        with rf have "k \<noteq> i" by auto
        with k have "i + 1 \<le> k" by simp
        with k IH(6) have "length new \<le> k - (i + 1)" by blast
        with \<open>i + 1 \<le> k\<close> show "length (c # new) \<le> k - i" by simp
      qed
      from p1 p2 p3 p4 p5 p6 show ?thesis by blast
    next
      case False
      with Captured have rf: "read_frame env (frameFileName i) = Captured c False" by simp
      from Suc.prems readFrames_undeleted [OF le rf]
      have eq: "cs' = cs @ [c]" "tr' = tr @ [ReadFile (frameFileName i), DeleteFile (frameFileName i)]"
        by simp_all
      have p6: "\<forall>k. i \<le> k \<and> k \<le> FRAME_COUNT + 10 \<and>
          (\<forall>c del. read_frame env (frameFileName k) \<noteq> Captured c del) \<longrightarrow> length [c] \<le> k - i"
      proof (intro allI impI)
        fix k assume k: "i \<le> k \<and> k \<le> FRAME_COUNT + 10 \<and>
          (\<forall>c del. read_frame env (frameFileName k) \<noteq> Captured c del)"
        with rf have "k \<noteq> i" by auto
        with k have "i < k" by simp
        then show "length [c] \<le> k - i" by simp
      qed
      show ?thesis
        using eq le rf p6
        by (intro exI [of _ "[c]"] exI [of _ "0::nat"]) (auto simp: progressValues_Cons)
    qed
  qed
qed

text \<open>The loop does not stop while the frame files are read, captured and deleted.\<close>

lemma readFrames_all_captured:
  assumes "\<forall>k. i \<le> k \<and> k < i + m \<longrightarrow> (\<exists>c. read_frame env (frameFileName k) = Captured c True)"
    and "i + m \<le> FRAME_COUNT + 11"
  shows "length cs + m \<le> length (fst (readFrames env cs tr i))"
  using assms
proof (induction m arbitrary: i cs tr)
  case 0
  obtain cs' tr' where rd: "readFrames env cs tr i = (cs', tr')"
    by (cases "readFrames env cs tr i")
  from readFrames_props [OF rd] obtain new where "cs' = cs @ new"
    by blast
  with rd show ?case by simp
next
  case (Suc m)
  from Suc.prems(2) have le: "i \<le> FRAME_COUNT + 10" by simp
  from Suc.prems(1) obtain c where rf: "read_frame env (frameFileName i) = Captured c True"
    by force
  have "length (cs @ [c]) + m \<le> length (fst (readFrames env (cs @ [c])
      (tr @ [ReadFile (frameFileName i), DeleteFile (frameFileName i), Progress (fallbackProgress i)])
      (i + 1)))"
    using Suc.prems by (intro Suc.IH) auto
  then show ?case
    by (simp add: readFrames_step [OF le rf])
qed

subsection \<open>A fallback run with two frame files\<close>

lemma frameFileName_values:
  "frameFileName 1 = ''out001.png''" "frameFileName 2 = ''out002.png''"
  "frameFileName 3 = ''out003.png''" "frameFileName 4 = ''out004.png''"
  by code_simp+

lemma matchDuration_header: "matchDuration ''Input #0, matroska,webm, from input.mkv:'' = None"
  by (simp add: matchDurationAt_def)

lemma matchDuration_na: "matchDuration ''  Duration: N/A, start: 0.000000, bitrate: N/A'' = None"
  by (simp add: matchDurationAt_def twoDigits_def digitVal_def)

lemma readFrames_two_frames:
  "readFrames two_frames [] tr 1 =
     ([teal, teal],
      tr @ [ReadFile ''out001.png'', DeleteFile ''out001.png'', Progress 10,
            ReadFile ''out002.png'', DeleteFile ''out002.png'', Progress 11,
            ReadFile ''out003.png''])"
proof -
  have le: "(1::nat) \<le> FRAME_COUNT + 10" "(2::nat) \<le> FRAME_COUNT + 10" "(3::nat) \<le> FRAME_COUNT + 10"
    by (simp_all add: FRAME_COUNT_def)
  have r1: "read_frame two_frames (frameFileName 1) = Captured teal True"
    and r2: "read_frame two_frames (frameFileName 2) = Captured teal True"
    and r3': "read_frame two_frames (frameFileName 3) = ReadFails"
    by code_simp+
  from r3' have r3: "\<forall>c del. read_frame two_frames (frameFileName 3) \<noteq> Captured c del"
    by simp
  note p = fallbackProgress_first
  let ?t1 = "tr @ [ReadFile ''out001.png'', DeleteFile ''out001.png'', Progress 10]"
  let ?t2 = "?t1 @ [ReadFile ''out002.png'', DeleteFile ''out002.png'', Progress 11]"
  have "readFrames two_frames [] tr 1 = readFrames two_frames [teal] ?t1 2"
    using readFrames_step [OF le(1) r1, of "[]" tr] by (simp add: frameFileName_values p del: One_nat_def)
  also have "\<dots> = readFrames two_frames [teal, teal] ?t2 3"
    using readFrames_step [OF le(2) r2, of "[teal]" ?t1] by (simp add: frameFileName_values p del: One_nat_def)
  also have "\<dots> = ([teal, teal], ?t2 @ [ReadFile ''out003.png''])"
    using readFrames_fail [OF le(3) r3, of "[teal, teal]" ?t2] by (simp add: frameFileName_values del: One_nat_def)
  finally show ?thesis by simp
qed

lemma two_frames_fields:
  "ffmpeg_loaded two_frames = False" "load_result two_frames = None"
  "write_result two_frames = None" "probe_result two_frames = None"
  "extract_result two_frames = None" "delete_input_result two_frames = None"
  by (simp_all add: two_frames_def)

lemma processVideoFFmpeg_two_frames:
  "processVideoFFmpeg two_frames film =
     (Resolved [teal, teal],
      [Progress 1, Load, WriteFile ''input.mkv'', ExecProbe ''input.mkv'', Progress 10,
       ExecExtract ''input.mkv'' (1 / 30),
       ReadFile ''out001.png'', DeleteFile ''out001.png'', Progress 10,
       ReadFile ''out002.png'', DeleteFile ''out002.png'', Progress 11,
       ReadFile ''out003.png'', DeleteFile ''input.mkv'', Progress 100])"
proof -
  have "probeDuration (probe_log two_frames) = 7200"
    by code_simp
  then show ?thesis
    by (simp add: processVideoFFmpeg_def extractAndRead_def Let_def inputName_def film_def
        readFrames_two_frames FRAME_COUNT_def two_frames_fields del: One_nat_def)
qed

subsection \<open>Runs of the native path\<close>

lemma processVideoNative_LoadError:
  "load env = LoadError \<Longrightarrow> processVideoNative env = (Rejected ''Format not supported'', [RevokeURL])"
  by (simp add: processVideoNative_def)

lemma processVideoNative_unknown:
  "load env = LoadedMetadata d \<Longrightarrow> durationUnknown d \<Longrightarrow>
     processVideoNative env = (Rejected ''Could not determine video duration'', [RevokeURL])"
  by (simp add: processVideoNative_def)

lemma processVideoNative_all_seeked:
  assumes "load env = LoadedMetadata d" and "\<not> durationUnknown d"
    and "\<forall>i<FRAME_COUNT. \<exists>cap. seek env i = Seeked cap"
  shows "processVideoNative env =
     (Resolved (map (frameColor env) [0..<FRAME_COUNT]),
      concat (map (roundEffects (finiteDuration d)) [0..<FRAME_COUNT]) @ [RevokeURL])"
  using assms
    processFrame_resolves [of "\<lparr>colors = [], currentFrame = 0, trace = []\<rparr>" env "finiteDuration d"]
  by (simp add: processVideoNative_def)

lemma processVideoNative_seek_error:
  assumes "load env = LoadedMetadata d" and "\<not> durationUnknown d"
    and "k < FRAME_COUNT" and "seek env k = SeekError" and "\<forall>i<k. \<exists>cap. seek env i = Seeked cap"
  shows "processVideoNative env =
     (Rejected ''Format not supported'',
      concat (map (roundEffects (finiteDuration d)) [0..<k]) @
        [SeekTo (seekTime (finiteDuration d) k), RevokeURL])"
  using assms
    processFrame_rejects [of "\<lparr>colors = [], currentFrame = 0, trace = []\<rparr>" k env "finiteDuration d"]
  by (simp add: processVideoNative_def)

lemma processVideoNative_draw_throws:
  assumes "load env = LoadedMetadata d" and "\<not> durationUnknown d"
    and "k < FRAME_COUNT" and "seek env k = SeekedDrawThrows"
    and "\<forall>i<k. \<exists>cap. seek env i = Seeked cap"
  shows "processVideoNative env =
     (Pending,
      concat (map (roundEffects (finiteDuration d)) [0..<k]) @ [SeekTo (seekTime (finiteDuration d) k)])"
  using assms
    processFrame_hangs [of "\<lparr>colors = [], currentFrame = 0, trace = []\<rparr>" k env "finiteDuration d"]
  by (simp add: processVideoNative_def)

text \<open>The five ways a native run can go.\<close>

lemma processVideoNative_cases:
  obtains (load_error) "load env = LoadError"
      "processVideoNative env = (Rejected ''Format not supported'', [RevokeURL])"
  | (unknown) d where "load env = LoadedMetadata d" "durationUnknown d"
      "processVideoNative env = (Rejected ''Could not determine video duration'', [RevokeURL])"
  | (sampled) d where "load env = LoadedMetadata d" "\<not> durationUnknown d"
      "\<forall>i<FRAME_COUNT. \<exists>cap. seek env i = Seeked cap"
      "processVideoNative env =
         (Resolved (map (frameColor env) [0..<FRAME_COUNT]),
          concat (map (roundEffects (finiteDuration d)) [0..<FRAME_COUNT]) @ [RevokeURL])"
  | (seek_error) d k where "load env = LoadedMetadata d" "\<not> durationUnknown d"
      "k < FRAME_COUNT" "seek env k = SeekError"
      "processVideoNative env =
         (Rejected ''Format not supported'',
          concat (map (roundEffects (finiteDuration d)) [0..<k]) @
            [SeekTo (seekTime (finiteDuration d) k), RevokeURL])"
  | (draw_throws) d k where "load env = LoadedMetadata d" "\<not> durationUnknown d"
      "k < FRAME_COUNT" "seek env k = SeekedDrawThrows"
      "processVideoNative env =
         (Pending,
          concat (map (roundEffects (finiteDuration d)) [0..<k]) @
            [SeekTo (seekTime (finiteDuration d) k)])"
proof (cases "load env")
  case LoadError
  then show ?thesis
    using load_error processVideoNative_LoadError by blast
next
  case (LoadedMetadata d)
  show ?thesis
  proof (cases "durationUnknown d")
    case True
    with LoadedMetadata show ?thesis
      using unknown processVideoNative_unknown by blast
  next
    case known: False
    show ?thesis
    proof (cases "\<forall>i<FRAME_COUNT. \<exists>cap. seek env i = Seeked cap")
      case True
      with LoadedMetadata known show ?thesis
        using sampled processVideoNative_all_seeked by blast
    next
      case False
      define k where "k = (LEAST i. i < FRAME_COUNT \<and> (\<forall>cap. seek env i \<noteq> Seeked cap))"
      from False have ex: "\<exists>i. i < FRAME_COUNT \<and> (\<forall>cap. seek env i \<noteq> Seeked cap)" by blast
      then have k: "k < FRAME_COUNT \<and> (\<forall>cap. seek env k \<noteq> Seeked cap)"
        unfolding k_def by (rule LeastI_ex)
      have first: "\<forall>i<k. \<exists>cap. seek env i = Seeked cap"
      proof (intro allI impI)
        fix i assume "i < k"
        then have "\<not> (i < FRAME_COUNT \<and> (\<forall>cap. seek env i \<noteq> Seeked cap))"
          unfolding k_def by (rule not_less_Least)
        with \<open>i < k\<close> k show "\<exists>cap. seek env i = Seeked cap" by simp
      qed
      from k consider "seek env k = SeekError" | "seek env k = SeekedDrawThrows"
        by (cases "seek env k") auto
      then show ?thesis
      proof cases
        case 1
        from processVideoNative_seek_error [OF LoadedMetadata known _ 1 first] k
        show ?thesis using seek_error LoadedMetadata known 1 by blast
      next
        case 2
        from processVideoNative_draw_throws [OF LoadedMetadata known _ 2 first] k
        show ?thesis using draw_throws LoadedMetadata known 2 by blast
      qed
    qed
  qed
qed

lemma frameColor_None: "seek env i = Seeked None \<Longrightarrow> frameColor env i = black"
  by (simp add: frameColor_def)

lemma frameColor_Some: "seek env i = Seeked (Some c) \<Longrightarrow> frameColor env i = c"
  by (simp add: frameColor_def)

lemma seekTimes_single: "seekTimes [RevokeURL] = []"
  by (simp add: seekTimes_def)

lemma fallbackOn_messages:
  "fallbackOn ''Format not supported''" "fallbackOn ''Could not determine video duration''"
  by (simp_all add: fallbackOn_def)

subsection \<open>Runs of the fallback path\<close>

text \<open>The progress values of the read loop: sorted, between 10 and 93.\<close>

lemma fallback_values:
  assumes "m \<le> FRAME_COUNT + 10"
  shows "sorted (map fallbackProgress [1..<1 + m])"
    and "\<forall>p\<in>set (map fallbackProgress [1..<1 + m]). 10 \<le> p \<and> p \<le> 93"
proof -
  show "sorted (map fallbackProgress [1..<1 + m])"
    by (rule sorted_map_upt) (rule fallbackProgress_mono)
  show "\<forall>p\<in>set (map fallbackProgress [1..<1 + m]). 10 \<le> p \<and> p \<le> 93"
    using assms by (auto simp: fallbackProgress_ge intro: fallbackProgress_le)
qed

lemma extractAndRead_props:
  assumes "extractAndRead env input tr = (out, tr')"
  shows "\<exists>m\<le>FRAME_COUNT + 10.
     progressValues tr' =
       progressValues tr @ [10] @ map fallbackProgress [1..<1 + m] @ (if isResolved out then [100] else []) \<and>
     (\<forall>cs. out = Resolved cs \<longrightarrow>
        m \<le> length cs \<and> length cs \<le> FRAME_COUNT + 10 \<and>
        (\<forall>n<length cs. \<exists>del. read_frame env (frameFileName (1 + n)) = Captured (cs ! n) del) \<and>
        (\<forall>k. 1 \<le> k \<and> k \<le> FRAME_COUNT + 10 \<and>
             (\<forall>c del. read_frame env (frameFileName k) \<noteq> Captured c del) \<longrightarrow> length cs < k))"
proof (cases "extract_result env")
  case (Some msg)
  with assms have "out = Rejected msg"
    "tr' = tr @ [Progress 10, ExecExtract input (real FRAME_COUNT / (if probeDuration (probe_log env) = 0 then 7200 else probeDuration (probe_log env)))]"
    by (simp_all add: extractAndRead_def Let_def)
  then show ?thesis
    by (intro exI [of _ "0::nat"]) (simp add: progressValues_Cons)
next
  case None
  let ?tr1 = "tr @ [Progress 10, ExecExtract input (real FRAME_COUNT / (if probeDuration (probe_log env) = 0 then 7200 else probeDuration (probe_log env)))]"
  obtain cs tr2 where rd: "readFrames env [] ?tr1 1 = (cs, tr2)"
    by (cases "readFrames env [] ?tr1 1")
  from readFrames_props [OF rd] obtain new m where props: "cs = [] @ new"
    "progressValues tr2 = progressValues ?tr1 @ map fallbackProgress [1..<1 + m]"
    "m \<le> length new" "length new \<le> FRAME_COUNT + 11 - 1"
    "\<forall>n<length new. \<exists>del. read_frame env (frameFileName (1 + n)) = Captured (new ! n) del"
    "\<forall>k. 1 \<le> k \<and> k \<le> FRAME_COUNT + 10 \<and>
          (\<forall>c del. read_frame env (frameFileName k) \<noteq> Captured c del) \<longrightarrow> length new \<le> k - 1"
    by blast
  from props(1) have new: "new = cs" by simp
  from props(3,4) new have m: "m \<le> FRAME_COUNT + 10" by simp
  have short: "\<forall>k. 1 \<le> k \<and> k \<le> FRAME_COUNT + 10 \<and>
             (\<forall>c del. read_frame env (frameFileName k) \<noteq> Captured c del) \<longrightarrow> length cs < k"
  proof (intro allI impI)
    fix k assume k: "1 \<le> k \<and> k \<le> FRAME_COUNT + 10 \<and>
             (\<forall>c del. read_frame env (frameFileName k) \<noteq> Captured c del)"
    with props(6) new have "length cs \<le> k - 1" by blast
    moreover from k have "0 < k" by simp
    ultimately show "length cs < k" by arith
  qed
  have pv: "progressValues tr2 = progressValues tr @ [10] @ map fallbackProgress [1..<1 + m]"
    using props(2) by (simp add: progressValues_Cons)
  show ?thesis
  proof (cases "delete_input_result env")
    case (Some msg)
    with None rd assms have "out = Rejected msg" "tr' = tr2 @ [DeleteFile input]"
      by (simp_all add: extractAndRead_def Let_def del: One_nat_def)
    with pv m show ?thesis
      by (intro exI [of _ m]) (simp add: progressValues_Cons del: One_nat_def)
  next
    case del_ok: None
    with None rd assms have "out = Resolved cs" "tr' = tr2 @ [DeleteFile input, Progress 100]"
      by (simp_all add: extractAndRead_def Let_def del: One_nat_def)
    with pv m props(3,4,5) new short show ?thesis
      by (intro exI [of _ m]) (simp add: progressValues_Cons del: One_nat_def)
  qed
qed

lemma processVideoFFmpeg_early:
  assumes "\<not> probeReturns env f"
  shows "\<exists>msg tr. processVideoFFmpeg env f = (Rejected msg, tr) \<and> progressValues tr = [1]"
  using assms
  by (auto simp: probeReturns_def processVideoFFmpeg_def Let_def progressValues_Cons
      split: option.splits)

lemma processVideoFFmpeg_late:
  assumes "probeReturns env f"
  shows "processVideoFFmpeg env f = extractAndRead env (inputName (file_name f)) (probeTrace env f)"
  using assms
  by (auto simp: probeReturns_def processVideoFFmpeg_def probeTrace_def Let_def)

lemma progressValues_probeTrace: "progressValues (probeTrace env f) = [1]"
  by (simp add: probeTrace_def progressValues_Cons)



lemma processVideoFFmpeg_resolved:
  assumes "processVideoFFmpeg env f = (Resolved cs, tr)"
  shows "progressValues tr \<noteq> [] \<and> last (progressValues tr) = 100 \<and>
     100 \<notin> set (butlast (progressValues tr)) \<and> length cs \<le> FRAME_COUNT + 10 \<and>
     (\<forall>n<length cs. \<exists>del. read_frame env (frameFileName (1 + n)) = Captured (cs ! n) del) \<and>
     (\<forall>k. 1 \<le> k \<and> k \<le> FRAME_COUNT + 10 \<and>
          (\<forall>c del. read_frame env (frameFileName k) \<noteq> Captured c del) \<longrightarrow> length cs < k)"
proof -
  have ret: "probeReturns env f"
  proof (rule ccontr)
    assume "\<not> probeReturns env f"
    from processVideoFFmpeg_early [OF this] assms show False by auto
  qed
  from processVideoFFmpeg_late [OF ret] assms
  have "extractAndRead env (inputName (file_name f)) (probeTrace env f) = (Resolved cs, tr)" by simp
  from extractAndRead_props [OF this] obtain m where m: "m \<le> FRAME_COUNT + 10"
    and pv: "progressValues tr = [1] @ [10] @ map fallbackProgress [1..<1 + m] @ [100]"
    and rest: "length cs \<le> FRAME_COUNT + 10"
      "\<forall>n<length cs. \<exists>del. read_frame env (frameFileName (1 + n)) = Captured (cs ! n) del"
      "\<forall>k. 1 \<le> k \<and> k \<le> FRAME_COUNT + 10 \<and>
          (\<forall>c del. read_frame env (frameFileName k) \<noteq> Captured c del) \<longrightarrow> length cs < k"
    by (auto simp: progressValues_probeTrace)
  from pv have bl: "butlast (progressValues tr) = [1, 10] @ map fallbackProgress [1..<1 + m]"
    by (simp add: butlast_append del: One_nat_def upt_Suc)
  from fallback_values(2) [OF m] have "100 \<notin> set (map fallbackProgress [1..<1 + m])"
    by fastforce
  with bl have "100 \<notin> set (butlast (progressValues tr))"
    by (simp del: One_nat_def upt_Suc)
  moreover from pv have "progressValues tr \<noteq> []" "last (progressValues tr) = 100"
    by (simp_all del: One_nat_def upt_Suc)
  ultimately show ?thesis using rest by blast
qed

subsection \<open>Runs of the entry point\<close>

lemma processVideo_native_resolved:
  "processVideoNative nenv = (Resolved cs, tr) \<Longrightarrow> processVideo nenv fenv f = (Resolved cs, tr)"
  by (simp add: processVideo_def)

lemma processVideoNative_rejected_fallbackOn:
  assumes "processVideoNative nenv = (Rejected msg, tr)"
  shows "fallbackOn msg"
  using assms by (cases nenv rule: processVideoNative_cases) (auto simp: fallbackOn_messages)

lemma processVideo_native_rejected:
  assumes "processVideoNative nenv = (Rejected msg, tr0)"
  shows "processVideo nenv fenv f =
     (fst (processVideoFFmpeg fenv f), tr0 @ snd (processVideoFFmpeg fenv f))"
  using assms processVideoNative_rejected_fallbackOn [OF assms]
  by (simp add: processVideo_def split: prod.splits)

lemma processVideoNative_resolved_props:
  assumes "processVideoNative nenv = (Resolved cs, tr)"
  shows "cs = map (frameColor nenv) [0..<FRAME_COUNT] \<and>
     progressValues tr = map (\<lambda>i. nativeProgress (i + 1)) [0..<FRAME_COUNT]"
  using assms
  by (cases nenv rule: processVideoNative_cases)
     (auto simp: progressValues_rounds progressValues_Cons)



lemma processVideoFFmpeg_resolves_iff:
  "isResolved (fst (processVideoFFmpeg env f)) \<longleftrightarrow>
     probeReturns env f \<and> extract_result env = None \<and> delete_input_result env = None"
proof (cases "probeReturns env f")
  case False
  from processVideoFFmpeg_early [OF this] show ?thesis
    using False by auto
next
  case True
  show ?thesis
    unfolding processVideoFFmpeg_late [OF True] using True
    by (auto simp: extractAndRead_def Let_def split: option.splits prod.splits)
qed

lemma processVideo_native_pending:
  "processVideoNative nenv = (Pending, tr) \<Longrightarrow> processVideo nenv fenv f = (Pending, tr)"
  by (simp add: processVideo_def)

lemma processVideoFFmpeg_all_captured:
  assumes "processVideoFFmpeg env f = (Resolved cs, tr)" and "m \<le> FRAME_COUNT + 10"
    and "\<forall>k. 1 \<le> k \<and> k \<le> m \<longrightarrow> (\<exists>c. read_frame env (frameFileName k) = Captured c True)"
  shows "m \<le> length cs"
proof -
  have ret: "probeReturns env f"
  proof (rule ccontr)
    assume "\<not> probeReturns env f"
    from processVideoFFmpeg_early [OF this] assms(1) show False by auto
  qed
  from processVideoFFmpeg_late [OF ret] assms(1)
  have run: "extractAndRead env (inputName (file_name f)) (probeTrace env f) = (Resolved cs, tr)"
    by simp
  define tr1 where "tr1 = probeTrace env f @
      [Progress 10,
       ExecExtract (inputName (file_name f))
         (real FRAME_COUNT /
            (if probeDuration (probe_log env) = 0 then 7200 else probeDuration (probe_log env)))]"
  from run have "cs = fst (readFrames env [] tr1 1)"
    unfolding tr1_def
    by (auto simp: extractAndRead_def Let_def split: option.splits prod.splits simp del: One_nat_def)
  moreover have "length ([] :: color list) + m \<le> length (fst (readFrames env [] tr1 1))"
    using assms(2,3) by (intro readFrames_all_captured) auto
  ultimately show ?thesis
    by simp
qed


subsection \<open>Length of the sequence\<close>

text \<open>
  Claim C1, amended. Whenever \<open>processVideo\<close> resolves, either the native path resolved,
  and then the sequence has exactly \<open>FRAME_COUNT = 240\<close> entries, entry \<open>i\<close> being the
  colour captured at seek \<open>i\<close>, or black when the capture at seek \<open>i\<close> failed; or the
  native path rejected and the fallback resolved. In that case the sequence has at most
  \<open>FRAME_COUNT + 10 = 250\<close> entries, each one the colour captured from the frame file of its
  number; it ends before the first frame file that is missing and it has an entry for every
  frame file before the first one that is not read, captured and deleted. So when the
  engine wrote the frame files \<open>1, \<dots>, m\<close> and they are read, captured and deleted, the
  length is \<open>m\<close> (or 250 when \<open>m\<close> is larger), the number of frame files, not
  \<open>FRAME_COUNT\<close>.
\<close>

theorem processVideo_length:
  assumes "processVideo nenv fenv f = (Resolved cs, tr)"
  shows "(fst (processVideoNative nenv) = Resolved cs \<and> length cs = FRAME_COUNT \<and>
      (\<forall>i<FRAME_COUNT. \<forall>c. seek nenv i = Seeked (Some c) \<longrightarrow> cs ! i = c) \<and>
      (\<forall>i<FRAME_COUNT. seek nenv i = Seeked None \<longrightarrow> cs ! i = black)) \<or>
     (\<not> isResolved (fst (processVideoNative nenv)) \<and>
      (\<exists>msg. fst (processVideoNative nenv) = Rejected msg) \<and>
      fst (processVideoFFmpeg fenv f) = Resolved cs \<and> length cs \<le> FRAME_COUNT + 10 \<and>
      (\<forall>n<length cs. \<exists>del. read_frame fenv (frameFileName (1 + n)) = Captured (cs ! n) del) \<and>
      (\<forall>k. 1 \<le> k \<and> k \<le> FRAME_COUNT + 10 \<and> read_frame fenv (frameFileName k) = ReadFails \<longrightarrow>
           length cs < k) \<and>
      (\<forall>m. m \<le> FRAME_COUNT + 10 \<and>
           (\<forall>k. 1 \<le> k \<and> k \<le> m \<longrightarrow> (\<exists>c. read_frame fenv (frameFileName k) = Captured c True)) \<longrightarrow>
           m \<le> length cs) \<and>
      (\<forall>m. m \<le> FRAME_COUNT + 10 \<and>
           (\<forall>k. 1 \<le> k \<and> k \<le> m \<longrightarrow> (\<exists>c. read_frame fenv (frameFileName k) = Captured c True)) \<and>
           (m = FRAME_COUNT + 10 \<or> read_frame fenv (frameFileName (m + 1)) = ReadFails) \<longrightarrow>
           length cs = m))"
proof (cases "processVideoNative nenv")
  case (Pair out tr0)
  show ?thesis
  proof (cases out)
    case (Resolved cs0)
    with Pair assms have "cs0 = cs"
      by (simp add: processVideo_def)
    with Pair Resolved processVideoNative_resolved_props [of nenv cs tr0] show ?thesis
      by (simp add: frameColor_None frameColor_Some)
  next
    case (Rejected msg)
    with Pair have nat: "processVideoNative nenv = (Rejected msg, tr0)" by simp
    obtain out1 tr1 where fb: "processVideoFFmpeg fenv f = (out1, tr1)"
      by (cases "processVideoFFmpeg fenv f")
    with processVideo_native_rejected [OF nat, of fenv f] assms
    have run: "processVideoFFmpeg fenv f = (Resolved cs, tr1)" by simp
    note props = processVideoFFmpeg_resolved [OF run]
    have short: "\<forall>k. 1 \<le> k \<and> k \<le> FRAME_COUNT + 10 \<and> read_frame fenv (frameFileName k) = ReadFails \<longrightarrow>
           length cs < k"
    proof (intro allI impI)
      fix k assume k: "1 \<le> k \<and> k \<le> FRAME_COUNT + 10 \<and> read_frame fenv (frameFileName k) = ReadFails"
      then have "\<forall>c del. read_frame fenv (frameFileName k) \<noteq> Captured c del" by simp
      with k props show "length cs < k" by blast
    qed
    have long: "\<forall>m. m \<le> FRAME_COUNT + 10 \<and>
           (\<forall>k. 1 \<le> k \<and> k \<le> m \<longrightarrow> (\<exists>c. read_frame fenv (frameFileName k) = Captured c True)) \<longrightarrow>
           m \<le> length cs"
      using processVideoFFmpeg_all_captured [OF run] by blast
    have exact: "\<forall>m. m \<le> FRAME_COUNT + 10 \<and>
           (\<forall>k. 1 \<le> k \<and> k \<le> m \<longrightarrow> (\<exists>c. read_frame fenv (frameFileName k) = Captured c True)) \<and>
           (m = FRAME_COUNT + 10 \<or> read_frame fenv (frameFileName (m + 1)) = ReadFails) \<longrightarrow>
           length cs = m"
    proof (intro allI impI)
      fix m
      assume m: "m \<le> FRAME_COUNT + 10 \<and>
           (\<forall>k. 1 \<le> k \<and> k \<le> m \<longrightarrow> (\<exists>c. read_frame fenv (frameFileName k) = Captured c True)) \<and>
           (m = FRAME_COUNT + 10 \<or> read_frame fenv (frameFileName (m + 1)) = ReadFails)"
      with long have ge: "m \<le> length cs" by blast
      from m consider "m = FRAME_COUNT + 10" | "m < FRAME_COUNT + 10" "read_frame fenv (frameFileName (m + 1)) = ReadFails"
        by fastforce
      then have "length cs \<le> m"
      proof cases
        case 1
        with props show ?thesis by simp
      next
        case 2
        then have "1 \<le> m + 1 \<and> m + 1 \<le> FRAME_COUNT + 10 \<and> read_frame fenv (frameFileName (m + 1)) = ReadFails"
          by simp
        with short have "length cs < m + 1" by blast
        then show ?thesis by simp
      qed
      with ge show "length cs = m" by simp
    qed
    from props run nat short long exact show ?thesis
      by simp
  next
    case Pending
    with Pair assms show ?thesis
      by (simp add: processVideo_def)
  qed
qed


lemma processVideoNative_tainted:
  "processVideoNative tainted =
     (Resolved (map (frameColor tainted) [0..<FRAME_COUNT]),
      concat (map (roundEffects 120) [0..<FRAME_COUNT]) @ [RevokeURL])"
  using processVideoNative_all_seeked [of tainted "DurationFinite 120"]
  by (simp add: tainted_def)

lemma processVideo_unsupported:
  "processVideo unsupported two_frames film =
     (fst (processVideoFFmpeg two_frames film), RevokeURL # snd (processVideoFFmpeg two_frames film))"
  using processVideo_native_rejected [OF processVideoNative_LoadError, of unsupported two_frames film]
  by (simp add: unsupported_def)

lemma two_frames_read:
  "read_frame two_frames (frameFileName 1) = Captured teal True"
  "read_frame two_frames (frameFileName 2) = Captured teal True"
  "read_frame two_frames (frameFileName 3) = ReadFails"
  by code_simp+
theorem processVideo_length_witness:
  "fst (processVideo tainted two_frames film) = Resolved (map (frameColor tainted) [0..<FRAME_COUNT]) \<and>
   length (map (frameColor tainted) [0..<FRAME_COUNT]) = 240 \<and>
   seek tainted 4 = Seeked None \<and> map (frameColor tainted) [0..<FRAME_COUNT] ! 4 = black \<and>
   seek tainted 5 = Seeked (Some teal) \<and> map (frameColor tainted) [0..<FRAME_COUNT] ! 5 = teal \<and>
   fst (processVideo unsupported two_frames film) = Resolved [teal, teal] \<and>
   read_frame two_frames (frameFileName 1) = Captured teal True \<and>
   read_frame two_frames (frameFileName 2) = Captured teal True \<and>
   read_frame two_frames (frameFileName 3) = ReadFails \<and>
   length [teal, teal] = 2"
proof -
  let ?cs = "map (frameColor tainted) [0..<FRAME_COUNT]"
  let ?tr = "concat (map (roundEffects 120) [0..<FRAME_COUNT]) @ [RevokeURL]"
  have run: "processVideo tainted two_frames film = (Resolved ?cs, ?tr)"
    using processVideoNative_tainted by (rule processVideo_native_resolved)
  have sk: "seek tainted 4 = Seeked None" "seek tainted 5 = Seeked (Some teal)"
    "(4::nat) < FRAME_COUNT" "(5::nat) < FRAME_COUNT"
    by (simp_all add: tainted_def FRAME_COUNT_def)
  from processVideo_length [OF run]
  have nat: "length ?cs = FRAME_COUNT \<and>
      (\<forall>i<FRAME_COUNT. \<forall>c. seek tainted i = Seeked (Some c) \<longrightarrow> ?cs ! i = c) \<and>
      (\<forall>i<FRAME_COUNT. seek tainted i = Seeked None \<longrightarrow> ?cs ! i = black)"
    by (simp add: processVideoNative_tainted)
  with sk have a: "length ?cs = 240" "?cs ! 4 = black" "?cs ! 5 = teal"
    by (simp_all add: FRAME_COUNT_def)
  let ?tr' = "snd (processVideo unsupported two_frames film)"
  have run': "processVideo unsupported two_frames film = (Resolved [teal, teal], ?tr')"
    by (simp add: processVideo_unsupported processVideoFFmpeg_two_frames)
  have rej: "fst (processVideoNative unsupported) \<noteq> Resolved [teal, teal]"
    using processVideoNative_LoadError [of unsupported] by (simp add: unsupported_def)
  from processVideo_length [OF run'] rej
  have "\<forall>m. m \<le> FRAME_COUNT + 10 \<and>
           (\<forall>k. 1 \<le> k \<and> k \<le> m \<longrightarrow> (\<exists>c. read_frame two_frames (frameFileName k) = Captured c True)) \<and>
           (m = FRAME_COUNT + 10 \<or> read_frame two_frames (frameFileName (m + 1)) = ReadFails) \<longrightarrow>
           length [teal, teal] = m"
    by blast
  moreover have "\<forall>k. 1 \<le> k \<and> k \<le> (2::nat) \<longrightarrow> (\<exists>c. read_frame two_frames (frameFileName k) = Captured c True)"
  proof (intro allI impI)
    fix k :: nat assume "1 \<le> k \<and> k \<le> 2"
    then have "k = 1 \<or> k = 2" by auto
    then show "\<exists>c. read_frame two_frames (frameFileName k) = Captured c True"
      using two_frames_read by auto
  qed
  moreover have "read_frame two_frames (frameFileName (2 + 1)) = ReadFails"
    using two_frames_read(3) by simp
  ultimately have b: "length [teal, teal] = (2::nat)"
    by (simp add: FRAME_COUNT_def)
  have f: "fst (processVideo tainted two_frames film) = Resolved ?cs"
    by (simp add: run)
  have f': "fst (processVideo unsupported two_frames film) = Resolved [teal, teal]"
    by (simp add: processVideo_unsupported processVideoFFmpeg_two_frames)
  from a b sk(1,2) f f' two_frames_read show ?thesis
    by blast
qed

theorem processVideo_length_counterexample:
  "fst (processVideo unsupported two_frames film) = Resolved [teal, teal] \<and>
   length [teal, teal] \<noteq> FRAME_COUNT"
  by (simp add: processVideo_unsupported processVideoFFmpeg_two_frames FRAME_COUNT_def)

subsection \<open>Progress reports\<close>






subsection \<open>A frame that cannot be captured\<close>

text \<open>
  A frame whose capture fails, path by path. On the native path a frame whose
  \<open>getImageData\<close> throws contributes the black sentinel, the run resolves whenever the
  metadata loads with a known duration and every seek is answered by \<open>seeked\<close> with a
  frame that can be drawn, and the sequence has \<open>FRAME_COUNT\<close> entries. A frame whose
  \<open>drawImage\<close> throws is not caught: the run stops there and its promise stays pending.
  On the fallback path the \<open>catch\<close> of the read loop is a \<open>break\<close>: a frame whose read,
  decode or capture throws ends the loop, and the sequence holds nothing for that frame or
  any later one. Whether the fallback resolves does not depend on how the frame reads go.
\<close>

lemma processVideoNative_capture_failure:
  assumes "processVideoNative nenv = (Resolved cs, tr)" and "i < FRAME_COUNT"
    and "seek nenv i = Seeked None"
  shows "length cs = FRAME_COUNT \<and> cs ! i = black"
proof -
  from assms(1) have cs: "cs = map (frameColor nenv) [0..<FRAME_COUNT]"
    using processVideoNative_resolved_props by blast
  with assms(2,3) show ?thesis
    by (simp add: frameColor_None)
qed

lemma processVideoNative_resolves:
  assumes "load nenv = LoadedMetadata d" and "\<not> durationUnknown d"
    and "\<forall>n<FRAME_COUNT. \<exists>cap. seek nenv n = Seeked cap"
  shows "isResolved (fst (processVideoNative nenv))"
  using assms by (simp add: processVideoNative_all_seeked)

lemma processVideoFFmpeg_frame_failure:
  assumes "processVideoFFmpeg fenv f = (Resolved cs, tr)" and "1 \<le> k" and "k \<le> FRAME_COUNT + 10"
    and "read_frame fenv (frameFileName k) \<in> {ReadFails, BitmapFails, CaptureFails}"
  shows "length cs < k"
proof -
  from assms(4) have "\<forall>c del. read_frame fenv (frameFileName k) \<noteq> Captured c del" by auto
  with processVideoFFmpeg_resolved [OF assms(1)] assms(2,3) show ?thesis by blast
qed

lemma processVideoFFmpeg_resolves_whatever_frames:
  "isResolved (fst (processVideoFFmpeg (fenv\<lparr>read_frame := rf\<rparr>) f)) =
     isResolved (fst (processVideoFFmpeg fenv f))"
  by (simp add: processVideoFFmpeg_resolves_iff probeReturns_def)

lemma processVideoNative_undrawable:
  "processVideoNative undrawable =
     (Pending, concat (map (roundEffects 120) [0..<4]) @ [SeekTo (seekTime 120 4)])"
  using processVideoNative_draw_throws [of undrawable "DurationFinite 120" 4]
  by (simp add: undrawable_def FRAME_COUNT_def)

lemma frameFileName_third_unreadable:
  "read_frame third_unreadable (frameFileName 1) = Captured teal True"
  "read_frame third_unreadable (frameFileName 2) = Captured teal True"
  "read_frame third_unreadable (frameFileName 3) = BitmapFails"
  "read_frame third_unreadable (frameFileName 4) = Captured teal True"
  by code_simp+

lemma readFrames_third_unreadable:
  "readFrames third_unreadable [] tr 1 =
     ([teal, teal],
      tr @ [ReadFile ''out001.png'', DeleteFile ''out001.png'', Progress 10,
            ReadFile ''out002.png'', DeleteFile ''out002.png'', Progress 11,
            ReadFile ''out003.png''])"
proof -
  have le: "(1::nat) \<le> FRAME_COUNT + 10" "(2::nat) \<le> FRAME_COUNT + 10" "(3::nat) \<le> FRAME_COUNT + 10"
    by (simp_all add: FRAME_COUNT_def)
  note rf = frameFileName_third_unreadable
  from rf(3) have r3: "\<forall>c del. read_frame third_unreadable (frameFileName 3) \<noteq> Captured c del"
    by simp
  note p = fallbackProgress_first
  let ?t1 = "tr @ [ReadFile ''out001.png'', DeleteFile ''out001.png'', Progress 10]"
  let ?t2 = "?t1 @ [ReadFile ''out002.png'', DeleteFile ''out002.png'', Progress 11]"
  have "readFrames third_unreadable [] tr 1 = readFrames third_unreadable [teal] ?t1 2"
    using readFrames_step [OF le(1) rf(1), of "[]" tr]
    by (simp add: frameFileName_values p del: One_nat_def)
  also have "\<dots> = readFrames third_unreadable [teal, teal] ?t2 3"
    using readFrames_step [OF le(2) rf(2), of "[teal]" ?t1]
    by (simp add: frameFileName_values p del: One_nat_def)
  also have "\<dots> = ([teal, teal], ?t2 @ [ReadFile ''out003.png''])"
    using readFrames_fail [OF le(3) r3, of "[teal, teal]" ?t2]
    by (simp add: frameFileName_values del: One_nat_def)
  finally show ?thesis by simp
qed

lemma third_unreadable_fields:
  "ffmpeg_loaded third_unreadable = True" "load_result third_unreadable = None"
  "write_result third_unreadable = None" "probe_result third_unreadable = None"
  "extract_result third_unreadable = None" "delete_input_result third_unreadable = None"
  by (simp_all add: third_unreadable_def)

lemma processVideoFFmpeg_third_unreadable:
  "processVideoFFmpeg third_unreadable film =
     (Resolved [teal, teal],
      [Progress 1, WriteFile ''input.mkv'', ExecProbe ''input.mkv'', Progress 10,
       ExecExtract ''input.mkv'' (1 / 30),
       ReadFile ''out001.png'', DeleteFile ''out001.png'', Progress 10,
       ReadFile ''out002.png'', DeleteFile ''out002.png'', Progress 11,
       ReadFile ''out003.png'', DeleteFile ''input.mkv'', Progress 100])"
proof -
  have "probeDuration (probe_log third_unreadable) = 7200"
    by code_simp
  then show ?thesis
    by (simp add: processVideoFFmpeg_def extractAndRead_def Let_def inputName_def film_def
        readFrames_third_unreadable FRAME_COUNT_def third_unreadable_fields del: One_nat_def)
qed

text \<open>
  Claim C3 on the code. The claim holds on the native path for a frame whose pixels cannot
  be read (lemma \<open>processVideoNative_capture_failure\<close>: the entry is black, the sequence
  keeps its 240 entries), here at frame 4 of a two-minute video. It fails on the fallback
  path: the engine wrote four frame files, \<open>createImageBitmap\<close> throws for the third one,
  and the sequence that \<open>processVideo\<close> resolves with has the two colours before it, no
  black entry for frame 3 and nothing for frame 4. It also fails on the native path for a
  frame that cannot be drawn: with \<open>drawImage\<close> throwing at frame 4 the run never settles.
\<close>

theorem frame_capture_failure:
  "isResolved (fst (processVideoNative tainted)) \<and>
   length (map (frameColor tainted) [0..<FRAME_COUNT]) = 240 \<and>
   map (frameColor tainted) [0..<FRAME_COUNT] ! 4 = \<lparr>r = 0, g = 0, b = 0\<rparr> \<and>
   read_frame third_unreadable (frameFileName 3) = BitmapFails \<and>
   read_frame third_unreadable (frameFileName 4) = Captured teal True \<and>
   fst (processVideoFFmpeg third_unreadable film) = Resolved [teal, teal] \<and>
   fst (processVideo unsupported third_unreadable film) = Resolved [teal, teal] \<and>
   seek tainted 4 = Seeked None \<and>
   fst (processVideoNative tainted) = Resolved (map (frameColor tainted) [0..<FRAME_COUNT]) \<and>
   fst (processVideo tainted third_unreadable film) = Resolved (map (frameColor tainted) [0..<FRAME_COUNT]) \<and>
   seek undrawable 4 = SeekedDrawThrows \<and>
   fst (processVideo undrawable third_unreadable film) = Pending"
proof -
  let ?cs = "map (frameColor tainted) [0..<FRAME_COUNT]"
  have sk: "seek tainted 4 = Seeked None" "4 < FRAME_COUNT" "seek undrawable 4 = SeekedDrawThrows"
    by (simp_all add: tainted_def undrawable_def FRAME_COUNT_def)
  with processVideoNative_capture_failure [OF processVideoNative_tainted]
  have "length ?cs = FRAME_COUNT \<and> ?cs ! 4 = black" by blast
  moreover have "isResolved (fst (processVideoNative tainted))"
    "fst (processVideoNative tainted) = Resolved ?cs"
    by (simp_all add: processVideoNative_tainted)
  moreover have "fst (processVideo tainted third_unreadable film) = Resolved ?cs"
    using processVideo_native_resolved [OF processVideoNative_tainted, of third_unreadable film]
    by simp
  moreover have "fst (processVideo undrawable third_unreadable film) = Pending"
    using processVideo_native_pending [OF processVideoNative_undrawable, of third_unreadable film]
    by simp
  moreover have "fst (processVideo unsupported third_unreadable film) = Resolved [teal, teal]"
    using processVideo_native_rejected [OF processVideoNative_LoadError, of unsupported third_unreadable film]
    by (simp add: unsupported_def processVideoFFmpeg_third_unreadable)
  ultimately show ?thesis
    using sk(1,3)
    by (simp add: FRAME_COUNT_def black_def processVideoFFmpeg_third_unreadable
        frameFileName_third_unreadable)
qed

subsection \<open>Unknown duration\<close>

text \<open>
  Claim C4, amended. If the video element reports a duration that is \<open>NaN\<close>, zero or
  infinite, the native path rejects with the error "Could not determine video duration"
  before it performs any seek and without a sample. \<open>processVideo\<close> does not fail with
  that error: it runs the software fallback, and its outcome is the fallback's.
\<close>

theorem duration_unknown:
  assumes "load nenv = LoadedMetadata d" and "durationUnknown d"
  shows "processVideoNative nenv = (Rejected ''Could not determine video duration'', [RevokeURL]) \<and>
     seekTimes (snd (processVideoNative nenv)) = [] \<and>
     processVideo nenv fenv f =
       (fst (processVideoFFmpeg fenv f), RevokeURL # snd (processVideoFFmpeg fenv f))"
proof -
  note rej = processVideoNative_unknown [OF assms]
  from processVideo_native_rejected [OF rej, of fenv f] rej show ?thesis
    by (simp add: seekTimes_single)
qed

theorem duration_unknown_witness:
  "processVideoNative endless = (Rejected ''Could not determine video duration'', [RevokeURL]) \<and>
   seekTimes (snd (processVideoNative endless)) = [] \<and>
   fst (processVideo endless no_duration film) = fst (processVideoFFmpeg no_duration film)"
proof -
  have "load endless = LoadedMetadata DurationInfinity" "durationUnknown DurationInfinity"
    by (simp_all add: endless_def)
  from duration_unknown [OF this, of no_duration film] show ?thesis
    by (metis fst_conv)
qed

theorem duration_unknown_counterexample:
  "load endless = LoadedMetadata DurationInfinity \<and>
   fst (processVideo endless two_frames film) = Resolved [teal, teal]"
proof -
  have ld: "load endless = LoadedMetadata DurationInfinity"
    by (simp add: endless_def)
  have "durationUnknown DurationInfinity" by simp
  from processVideo_native_rejected [OF processVideoNative_unknown [OF ld this], of two_frames film] ld
  show ?thesis
    by (simp add: processVideoFFmpeg_two_frames)
qed

subsection \<open>No duration from the probe\<close>

lemma probeDuration_no_match:
  assumes "\<forall>msg\<in>set msgs. matchDuration msg = None"
  shows "foldl logHandler d msgs = d"
  using assms by (induction msgs arbitrary: d) (simp_all add: logHandler_def)

lemma readFrames_trace_extends:
  "\<exists>more. snd (readFrames env cs tr i) = tr @ more"
proof (induction "FRAME_COUNT + 11 - i" arbitrary: i cs tr)
  case 0
  then have "FRAME_COUNT + 10 < i" by simp
  then show ?case by (simp add: readFrames_over)
next
  case (Suc x)
  then have le: "i \<le> FRAME_COUNT + 10" by simp
  show ?case
  proof (cases "read_frame env (frameFileName i)")
    case (Captured c del)
    show ?thesis
    proof (cases del)
      case True
      with Captured have rf: "read_frame env (frameFileName i) = Captured c True" by simp
      from Suc.hyps(2) have "x = FRAME_COUNT + 11 - (i + 1)" by simp
      from Suc.hyps(1) [OF this] obtain more where
        "snd (readFrames env (cs @ [c])
           (tr @ [ReadFile (frameFileName i), DeleteFile (frameFileName i), Progress (fallbackProgress i)])
           (i + 1)) =
         (tr @ [ReadFile (frameFileName i), DeleteFile (frameFileName i), Progress (fallbackProgress i)]) @ more"
        by blast
      then show ?thesis
        by (simp add: readFrames_step [OF le rf])
    next
      case False
      with Captured have "read_frame env (frameFileName i) = Captured c False" by simp
      then show ?thesis
        by (simp add: readFrames_undeleted [OF le])
    qed
  qed (simp_all add: readFrames_fail [OF le])
qed

text \<open>
  Claim C9. On the fallback path, when the probe returns and no message of its log matches
  the duration pattern, the variable \<open>duration\<close> is still 0 at the check, 7200 is
  substituted, and the extraction is run with \<open>fps = FRAME_COUNT / 7200\<close>. The operation
  does not fail for the missing duration: it resolves unless the extraction \<open>exec\<close> or the
  final \<open>deleteFile\<close> throws.
\<close>

theorem fallback_assumes_two_hours:
  assumes "probeReturns env f" and "\<forall>msg\<in>set (probe_log env). matchDuration msg = None"
  shows "probeDuration (probe_log env) = 0 \<and>
     ExecExtract (inputName (file_name f)) (real FRAME_COUNT / 7200)
       \<in> set (snd (processVideoFFmpeg env f)) \<and>
     isResolved (fst (processVideoFFmpeg env f)) =
       (extract_result env = None \<and> delete_input_result env = None)"
proof -
  from assms(2) have zero: "probeDuration (probe_log env) = 0"
    by (simp add: probeDuration_def probeDuration_no_match)
  let ?input = "inputName (file_name f)"
  let ?tr1 = "probeTrace env f @ [Progress 10, ExecExtract ?input (real FRAME_COUNT / 7200)]"
  obtain more where more: "snd (readFrames env [] ?tr1 1) = ?tr1 @ more"
    using readFrames_trace_extends by blast
  have "ExecExtract ?input (real FRAME_COUNT / 7200) \<in> set (snd (extractAndRead env ?input (probeTrace env f)))"
    using zero more
    by (auto simp: extractAndRead_def Let_def split: option.splits prod.splits simp del: One_nat_def)
  then have "ExecExtract ?input (real FRAME_COUNT / 7200) \<in> set (snd (processVideoFFmpeg env f))"
    by (simp add: processVideoFFmpeg_late [OF assms(1)])
  with zero assms(1) show ?thesis
    by (simp add: processVideoFFmpeg_resolves_iff)
qed

lemma no_duration_fields:
  "ffmpeg_loaded no_duration = True" "load_result no_duration = None"
  "write_result no_duration = None" "probe_result no_duration = None"
  "extract_result no_duration = None" "delete_input_result no_duration = None"
  "probe_log no_duration = [''Input #0, matroska,webm, from input.mkv:'',
                   ''  Duration: N/A, start: 0.000000, bitrate: N/A'']"
  by (simp_all add: no_duration_def)

theorem fallback_assumes_two_hours_witness:
  "probeReturns no_duration film \<and> probeDuration (probe_log no_duration) = 0 \<and>
   ExecExtract ''input.mkv'' (1 / 30) \<in> set (snd (processVideoFFmpeg no_duration film)) \<and>
   isResolved (fst (processVideoFFmpeg no_duration film))"
proof -
  have ret: "probeReturns no_duration film"
    by (simp add: probeReturns_def no_duration_fields film_def)
  have nomatch: "\<forall>msg\<in>set (probe_log no_duration). matchDuration msg = None"
    by (simp add: no_duration_fields matchDuration_header matchDuration_na del: matchDuration.simps)
  from fallback_assumes_two_hours [OF ret nomatch] ret show ?thesis
    by (simp add: no_duration_fields(5,6) inputName_def film_def FRAME_COUNT_def)
qed


end
